theory Spec2Isabelle
  imports Main "HOL-Library.Word"
begin

unbundle bit_operations_syntax

section \<open>The KAR archiver: checksum engine, container format, pack, unpack, list\<close>

text \<open>
  The repository holds two versions of the archiver. The current one is split into
  \<^verbatim>\<open>archiver.hpp\<close>, \<^verbatim>\<open>format.hpp\<close>, \<^verbatim>\<open>utils.hpp\<close>, \<^verbatim>\<open>main.cpp\<close> and an
  \<^verbatim>\<open>archiver.cpp\<close> that includes \<^verbatim>\<open>include/crc32.hpp\<close>; it is the one the tests
  of the repository build and run, and the one embedded here. The other is an earlier
  single-file \<^verbatim>\<open>archiver.cpp\<close> that declares the structs itself and knows no CRC.

  Fixed-width C++ integers are machine words; \<^verbatim>\<open>std::vector<char>\<close> and
  \<^verbatim>\<open>std::string\<close> are lists of bytes; a stream is a byte list with a read position
  and a fail flag; every \<^verbatim>\<open>throw\<close> is a value of the type \<open>error\<close>. The
  platform is a 64-bit little-endian one with POSIX paths. Memory is unbounded, and
  \<^verbatim>\<open>pack\<close> can write to the archive file once it has opened it. The destination of
  \<^verbatim>\<open>unpack\<close> is an environment: the calls made on it are recorded, and whether a call
  throws is its answer. What the program prints on standard output is left out, except
  for the lines of \<^verbatim>\<open>list\<close>.
\<close>

type_synonym byte = "8 word"
type_synonym u16 = "16 word"
type_synonym u32 = "32 word"
type_synonym u64 = "64 word"

subsection \<open>Checksum engine (\<^verbatim>\<open>class CRC32\<close>)\<close>

definition POLYNOMIAL :: u32 where
  "POLYNOMIAL = 0xEDB88320"

text \<open>The body of the inner loop of \<^verbatim>\<open>init_table\<close>: one shift/XOR round.\<close>

definition crc_round :: "u32 \<Rightarrow> u32" where
  "crc_round crc = (if crc AND 1 \<noteq> 0 then drop_bit 1 crc XOR POLYNOMIAL else drop_bit 1 crc)"

text \<open>The inner loop \<^verbatim>\<open>for (int j = 0; j < 8; ++j)\<close>, with the number of rounds left.\<close>

primrec crc_rounds :: "nat \<Rightarrow> u32 \<Rightarrow> u32" where
  "crc_rounds 0 crc = crc"
| "crc_rounds (Suc j) crc = crc_rounds j (crc_round crc)"

text \<open>The outer loop \<^verbatim>\<open>for (uint32_t i = 0; i < 256; ++i)\<close> fills \<^verbatim>\<open>table_[i]\<close>.\<close>

definition init_table :: "u32 list" where
  "init_table = map (\<lambda>i. crc_rounds 8 (of_nat i)) [0..<256]"

text \<open>
  The body of the loop of \<^verbatim>\<open>calculate\<close>. The index is a \<^verbatim>\<open>uint8_t\<close>, so the
  table access is always in range.
\<close>

definition crc_update :: "u32 \<Rightarrow> byte \<Rightarrow> u32" where
  "crc_update crc d =
     (let table_index = (ucast ((crc XOR ucast d) AND 0xFF) :: byte)
      in drop_bit 8 crc XOR init_table ! unat table_index)"

definition calculate :: "byte list \<Rightarrow> u32" where
  "calculate buf = foldl crc_update 0xFFFFFFFF buf XOR 0xFFFFFFFF"

text \<open>
  The textbook bit-serial form of reflected CRC-32, without a table: every input byte is
  XORed into the accumulator and followed by eight shift/XOR rounds. The table-driven
  \<open>calculate\<close> is compared with it below.
\<close>

definition crc32_bitwise :: "byte list \<Rightarrow> u32" where
  "crc32_bitwise buf =
     foldl (\<lambda>crc d. crc_rounds 8 (crc XOR ucast d)) 0xFFFFFFFF buf XOR 0xFFFFFFFF"

subsection \<open>Container format (\<^verbatim>\<open>format.hpp\<close>)\<close>

text \<open>
  Both structs are declared under \<^verbatim>\<open>#pragma pack(push, 1)\<close> and are written and read
  as raw memory, so the bytes in the container are the fields in declaration order with
  no padding, each in the byte order of the host. The host is little-endian, as the
  comment on \<^verbatim>\<open>KAR_MAGIC\<close> says.
\<close>

record FileHeader =
  magic :: u32
  version :: u16
  entry_count :: u32
  created_at :: u64
  reserved :: u32

record EntryHeader =
  path_length :: u32
  content_size :: u64
  modified_time :: u64
  checksum :: u32
  permissions :: u16

definition KAR_MAGIC :: u32 where
  "KAR_MAGIC = 0x5241414B"

text \<open>The \<open>n\<close> bytes of an integer in memory, least significant first, and back.\<close>

primrec le_bytes :: "nat \<Rightarrow> 'a::len word \<Rightarrow> byte list" where
  "le_bytes 0 w = []"
| "le_bytes (Suc n) w = ucast w # le_bytes n (drop_bit 8 w)"

primrec le_word :: "byte list \<Rightarrow> 'a::len word" where
  "le_word [] = 0"
| "le_word (b # bs) = ucast b OR push_bit 8 (le_word bs)"

text \<open>The object representation: \<^verbatim>\<open>sizeof(FileHeader)\<close> is 22, \<^verbatim>\<open>sizeof(EntryHeader)\<close> is 26.\<close>

definition FileHeader_bytes :: "FileHeader \<Rightarrow> byte list" where
  "FileHeader_bytes h =
     le_bytes 4 (magic h) @ le_bytes 2 (version h) @ le_bytes 4 (entry_count h) @
     le_bytes 8 (created_at h) @ le_bytes 4 (reserved h)"

definition EntryHeader_bytes :: "EntryHeader \<Rightarrow> byte list" where
  "EntryHeader_bytes e =
     le_bytes 4 (path_length e) @ le_bytes 8 (content_size e) @ le_bytes 8 (modified_time e) @
     le_bytes 4 (checksum e) @ le_bytes 2 (permissions e)"

text \<open>
  Reading a field of a struct that \<^verbatim>\<open>archive.read\<close> has filled. The struct is declared
  without an initialiser, and a short read stores only the bytes the stream supplied, so
  \<open>raw\<close> holds the bytes that were stored. A field that lies beyond them has an
  indeterminate value: \<open>None\<close>.
\<close>

definition field :: "nat \<Rightarrow> nat \<Rightarrow> byte list \<Rightarrow> 'a::len word option" where
  "field off n raw =
     (if off + n \<le> length raw then Some (le_word (take n (drop off raw))) else None)"

subsection \<open>Input streams (\<^verbatim>\<open>std::ifstream\<close>)\<close>

text \<open>
  The bytes of the file, the read position and the fail flag. A stream whose file cannot
  be opened has the flag set. Once the flag is set every later \<^verbatim>\<open>read\<close> and
  \<^verbatim>\<open>seekg\<close> does nothing: the code never clears it.
\<close>

record istream =
  s_data :: "byte list"
  s_pos :: nat
  s_fail :: bool

definition open_stream :: "byte list option \<Rightarrow> istream" where
  "open_stream file =
     (case file of
        None \<Rightarrow> \<lparr>s_data = [], s_pos = 0, s_fail = True\<rparr>
      | Some bytes \<Rightarrow> \<lparr>s_data = bytes, s_pos = 0, s_fail = False\<rparr>)"

text \<open>
  \<^verbatim>\<open>archive.read(p, n)\<close>: the bytes stored at \<open>p\<close> and the stream afterwards. Fewer
  than \<open>n\<close> bytes are stored when the file ends first, and the flag is set then.
\<close>

definition stream_read :: "nat \<Rightarrow> istream \<Rightarrow> byte list \<times> istream" where
  "stream_read n s =
     (if s_fail s then ([], s)
      else let got = take n (drop (s_pos s) (s_data s))
           in (got, s\<lparr>s_pos := s_pos s + length got, s_fail := length got < n\<rparr>))"

text \<open>
  \<^verbatim>\<open>archive.seekg(off, std::ios::cur)\<close>. The offset is a signed 64-bit
  \<^verbatim>\<open>std::streamoff\<close>. A position past the end of the file is accepted (the next read
  then stores nothing); a position before the start of the file is refused and sets the
  flag.
\<close>

definition stream_seekg_cur :: "int \<Rightarrow> istream \<Rightarrow> istream" where
  "stream_seekg_cur off s =
     (if s_fail s then s
      else if int (s_pos s) + off < 0 then s\<lparr>s_fail := True\<rparr>
      else s\<lparr>s_pos := nat (int (s_pos s) + off)\<rparr>)"

text \<open>
  \<^verbatim>\<open>std::string rel_path(n, '\0')\<close> and \<^verbatim>\<open>std::vector<char> buffer(n)\<close> are
  zero-filled before the read, so a short read leaves zeros behind the bytes it stored.
\<close>

definition zero_filled :: "nat \<Rightarrow> byte list \<Rightarrow> byte list" where
  "zero_filled n got = got @ replicate (n - length got) 0"

subsection \<open>Paths, files and errors\<close>

type_synonym path = "byte list"

text \<open>
  \<^verbatim>\<open>target_dir / rel_path\<close> of \<^verbatim>\<open>std::filesystem::path\<close> with POSIX separators
  (\<open>0x2F\<close> is the slash): an absolute right operand replaces the left one; otherwise a
  separator is put between the two unless the left operand is empty or already ends
  with one.
\<close>

definition is_absolute :: "path \<Rightarrow> bool" where
  "is_absolute p = (case p of [] \<Rightarrow> False | c # _ \<Rightarrow> c = 0x2F)"

definition path_join :: "path \<Rightarrow> path \<Rightarrow> path" where
  "path_join dir rel =
     (if is_absolute rel then rel
      else if dir = [] \<or> last dir = 0x2F then dir @ rel
      else dir @ 0x2F # rel)"

text \<open>
  The destination file system lies outside the program. \<^verbatim>\<open>unpack\<close> makes three
  calls on it for every entry and never reads from it, so all that the program observes
  of a call is whether it throws:
  \<^item> \<open>CreateParentDirectories p\<close> is \<^verbatim>\<open>fs::create_directories(p.parent_path())\<close>,
    which throws \<^verbatim>\<open>std::filesystem::filesystem_error\<close> when it fails (an empty parent
    path, a component that is a regular file, ...);
  \<^item> \<open>OfstreamWrite p c\<close> is \<^verbatim>\<open>std::ofstream out_file(p, std::ios::binary)\<close>
    followed by \<^verbatim>\<open>out_file.write\<close> of the bytes \<open>c\<close>. It never throws, and the code
    does not test whether the file could be opened or written: when the open fails (an
    empty file name, a directory at \<open>p\<close>, ...), nothing is written and the run goes on;
  \<^item> \<open>Permissions p m\<close> is \<^verbatim>\<open>fs::permissions(p, m)\<close>, which throws
    \<^verbatim>\<open>filesystem_error\<close> when it fails (no file at \<open>p\<close>, ...).
\<close>

datatype fs_call =
    CreateParentDirectories path
  | OfstreamWrite path "byte list"
  | Permissions path u16

text \<open>
  The file system as the program meets it: whether a call fails, given the calls that
  the run has made before it. A failing \<open>CreateParentDirectories\<close> or
  \<open>Permissions\<close> throws. A failing \<open>OfstreamWrite\<close> leaves the bytes unwritten and
  does not throw, so the program does not learn of it.
\<close>

type_synonym file_system = "fs_call list \<Rightarrow> fs_call \<Rightarrow> bool"

definition throws :: "file_system \<Rightarrow> fs_call list \<Rightarrow> fs_call \<Rightarrow> bool" where
  "throws fsys made c = (case c of OfstreamWrite p b \<Rightarrow> False | _ \<Rightarrow> fsys made c)"

text \<open>
  A regular file that \<^verbatim>\<open>recursive_directory_iterator\<close> yields: its path relative to the
  source directory (\<^verbatim>\<open>fs::relative(file_path, base_dir).string()\<close>), its content, and
  the permission bits and modification time that the file system holds for it.
\<close>

record src_file =
  sf_path :: path
  sf_content :: "byte list"
  sf_mode :: u16
  sf_mtime :: u64

text \<open>
  Every \<^verbatim>\<open>throw\<close>, by the message of its \<^verbatim>\<open>std::runtime_error\<close>:
  \<^item> \<open>SourceDirMissing\<close>: "Source directory does not exist" (the spec's NotFound);
  \<^item> \<open>CannotCreateArchive\<close>: "Cannot create archive file" (IOError);
  \<^item> \<open>CannotOpenArchive\<close>: "Cannot open archive file" (NotFound);
  \<^item> \<open>WrongMagic\<close>: "Invalid archive format (wrong magic number)" (InvalidFormat);
  \<^item> \<open>CRC32Mismatch path expected got\<close>: "CRC32 mismatch for file: path (expected: ...,
    got: ...)" (ChecksumMismatch);
  \<^item> \<open>VectorTooLong\<close>: the \<^verbatim>\<open>std::length_error\<close> of the \<^verbatim>\<open>std::vector<char>\<close>
    constructor for a size above \<^verbatim>\<open>PTRDIFF_MAX\<close>;
  \<^item> \<open>FilesystemError\<close>: the \<^verbatim>\<open>filesystem_error\<close> of a call on the destination.
  The code has no error for a path that leaves the destination directory.
\<close>

datatype error =
    SourceDirMissing
  | CannotCreateArchive
  | CannotOpenArchive
  | WrongMagic
  | CRC32Mismatch path u32 u32
  | VectorTooLong
  | FilesystemError

text \<open>
  How a run ends: it returns, it throws, or it uses the indeterminate value of a struct
  field that no read has filled.
\<close>

datatype outcome = Done | Throw error | Indeterminate

subsection \<open>Archive writer (\<^verbatim>\<open>Archiver::pack\<close>, \<^verbatim>\<open>Archiver::write_entry\<close>)\<close>

text \<open>
  The struct that \<^verbatim>\<open>write_entry\<close> fills. \<open>now\<close> is what \<^verbatim>\<open>current_timestamp()\<close>
  returns in this call. The casts to \<^verbatim>\<open>uint32_t\<close> and \<^verbatim>\<open>uint64_t\<close> truncate.
  \<open>0644\<close> is an octal literal: 420.
\<close>

definition entry_header_of :: "u64 \<Rightarrow> src_file \<Rightarrow> EntryHeader" where
  "entry_header_of now f =
     \<lparr>path_length = of_nat (length (sf_path f)),
      content_size = of_nat (length (sf_content f)),
      modified_time = now,
      checksum = calculate (sf_content f),
      permissions = 420\<rparr>"

text \<open>The bytes that \<^verbatim>\<open>write_entry\<close> appends to the archive: header, path, content.\<close>

definition write_entry :: "u64 \<Rightarrow> src_file \<Rightarrow> byte list" where
  "write_entry now f = EntryHeader_bytes (entry_header_of now f) @ sf_path f @ sf_content f"

text \<open>
  The loop of \<^verbatim>\<open>pack\<close>. \<open>clock k\<close> is the value of the \<open>k\<close>-th call of
  \<^verbatim>\<open>current_timestamp()\<close> in the run; call \<open>0\<close> is the one for the global header.
\<close>

fun write_entries :: "(nat \<Rightarrow> u64) \<Rightarrow> nat \<Rightarrow> src_file list \<Rightarrow> byte list" where
  "write_entries clock k [] = []"
| "write_entries clock k (f # files) = write_entry (clock k) f @ write_entries clock (Suc k) files"

text \<open>
  \<^verbatim>\<open>pack\<close>. \<open>source_dir\<close> is \<open>None\<close> when the source path does not exist or is not a
  directory, and the regular files below it in iteration order otherwise;
  \<open>can_create\<close> tells whether the output file can be opened. The result is the
  content of the archive file, which is taken to lie outside the source directory. The
  progress bar on standard output is left out.
\<close>

definition pack :: "src_file list option \<Rightarrow> bool \<Rightarrow> (nat \<Rightarrow> u64) \<Rightarrow> error + byte list" where
  "pack source_dir can_create clock =
     (case source_dir of
        None \<Rightarrow> Inl SourceDirMissing
      | Some files \<Rightarrow>
          if \<not> can_create then Inl CannotCreateArchive
          else Inr (FileHeader_bytes
                      \<lparr>magic = KAR_MAGIC, version = 1,
                       entry_count = of_nat (length files),
                       created_at = clock 0, reserved = 0\<rparr>
                    @ write_entries clock 1 files))"

text \<open>
  The \<^verbatim>\<open>write_entry\<close> of the earlier single-file version differs from the one
  above in one field, the checksum, which it leaves at zero (with a note that the CRC is
  still to be computed); the reader of that version does not compare checksums.
\<close>

definition legacy_entry_header_of :: "u64 \<Rightarrow> src_file \<Rightarrow> EntryHeader" where
  "legacy_entry_header_of now f =
     \<lparr>path_length = of_nat (length (sf_path f)),
      content_size = of_nat (length (sf_content f)),
      modified_time = now,
      checksum = 0,
      permissions = 420\<rparr>"

definition legacy_write_entry :: "u64 \<Rightarrow> src_file \<Rightarrow> byte list" where
  "legacy_write_entry now f =
     EntryHeader_bytes (legacy_entry_header_of now f) @ sf_path f @ sf_content f"

subsection \<open>Archive reader (\<^verbatim>\<open>Archiver::unpack\<close>, \<^verbatim>\<open>Archiver::list\<close>)\<close>

text \<open>
  The loop of \<^verbatim>\<open>unpack\<close>, with the number of entries left and the calls made on the
  destination so far. The fields of the entry header are used in the order of the code:
  \<^verbatim>\<open>path_length\<close>, \<^verbatim>\<open>content_size\<close>, \<^verbatim>\<open>checksum\<close>, and
  \<^verbatim>\<open>permissions\<close> after the file is written. A call that throws ends the run; it is
  the last call of the result.
\<close>

fun unpack_entries ::
  "file_system \<Rightarrow> nat \<Rightarrow> path \<Rightarrow> istream \<Rightarrow> fs_call list \<Rightarrow> outcome \<times> fs_call list" where
  "unpack_entries fsys 0 target_dir archive made = (Done, made)"
| "unpack_entries fsys (Suc n) target_dir archive made =
     (let (raw, a1) = stream_read 26 archive in
      case (field 0 4 raw :: u32 option) of
        None \<Rightarrow> (Indeterminate, made)
      | Some plen \<Rightarrow>
          let (pgot, a2) = stream_read (unat plen) a1;
              rel_path = zero_filled (unat plen) pgot
          in case (field 4 8 raw :: u64 option) of
               None \<Rightarrow> (Indeterminate, made)
             | Some csize \<Rightarrow>
                 if 2 ^ 63 \<le> unat csize then (Throw VectorTooLong, made)
                 else
                   let (cgot, a3) = stream_read (unat csize) a2;
                       buffer = zero_filled (unat csize) cgot;
                       calculated_crc = calculate buffer
                   in case (field 20 4 raw :: u32 option) of
                        None \<Rightarrow> (Indeterminate, made)
                      | Some stored \<Rightarrow>
                          if calculated_crc \<noteq> stored
                          then (Throw (CRC32Mismatch rel_path stored calculated_crc), made)
                          else
                            let out_path = path_join target_dir rel_path;
                                mkdirs = CreateParentDirectories out_path
                            in if throws fsys made mkdirs
                               then (Throw FilesystemError, made @ [mkdirs])
                               else
                                 let written = made @ [mkdirs, OfstreamWrite out_path buffer]
                                 in case (field 24 2 raw :: u16 option) of
                                      None \<Rightarrow> (Indeterminate, written)
                                    | Some perm \<Rightarrow>
                                        if throws fsys written (Permissions out_path perm)
                                        then (Throw FilesystemError,
                                              written @ [Permissions out_path perm])
                                        else unpack_entries fsys n target_dir a3
                                               (written @ [Permissions out_path perm]))"

text \<open>
  \<^verbatim>\<open>unpack\<close>: how the run ends and the calls it has made on the destination, in
  order. The archive file is \<open>None\<close> when it cannot be opened. The magic is compared
  first; the version and the entry count are printed next.
\<close>

definition unpack ::
  "file_system \<Rightarrow> byte list option \<Rightarrow> path \<Rightarrow> outcome \<times> fs_call list" where
  "unpack fsys archive_file target_dir =
     (let archive = open_stream archive_file in
      if s_fail archive then (Throw CannotOpenArchive, [])
      else
        let (raw, a1) = stream_read 22 archive in
        case (field 0 4 raw :: u32 option) of
          None \<Rightarrow> (Indeterminate, [])
        | Some m \<Rightarrow>
            if m \<noteq> KAR_MAGIC then (Throw WrongMagic, [])
            else
              (case (field 4 2 raw :: u16 option) of
                 None \<Rightarrow> (Indeterminate, [])
               | Some ver \<Rightarrow>
                   (case (field 6 4 raw :: u32 option) of
                      None \<Rightarrow> (Indeterminate, [])
                    | Some total_entries \<Rightarrow>
                        unpack_entries fsys (unat total_entries) target_dir a1 [])))"

text \<open>
  The loop of \<^verbatim>\<open>list\<close>: the lines printed so far, each a path and a content size (the
  size before \<^verbatim>\<open>format_size\<close> turns it into text). The content is skipped with
  \<^verbatim>\<open>seekg\<close>, whose offset is the 64-bit size read as a signed number.
\<close>

fun list_entries ::
  "nat \<Rightarrow> istream \<Rightarrow> (path \<times> u64) list \<Rightarrow> outcome \<times> (path \<times> u64) list" where
  "list_entries 0 archive shown = (Done, shown)"
| "list_entries (Suc n) archive shown =
     (let (raw, a1) = stream_read 26 archive in
      case (field 0 4 raw :: u32 option) of
        None \<Rightarrow> (Indeterminate, shown)
      | Some plen \<Rightarrow>
          let (pgot, a2) = stream_read (unat plen) a1;
              rel_path = zero_filled (unat plen) pgot
          in case (field 4 8 raw :: u64 option) of
               None \<Rightarrow> (Indeterminate, shown)
             | Some csize \<Rightarrow>
                 list_entries n (stream_seekg_cur (sint csize) a2) (shown @ [(rel_path, csize)]))"

text \<open>
  \<^verbatim>\<open>list\<close>. It neither tests whether the stream is open nor compares the magic: the
  first field it uses is the entry count, which it prints.
\<close>

definition list_archive :: "byte list option \<Rightarrow> outcome \<times> (path \<times> u64) list" where
  "list_archive archive_file =
     (let (raw, a1) = stream_read 22 (open_stream archive_file) in
      case (field 6 4 raw :: u32 option) of
        None \<Rightarrow> (Indeterminate, [])
      | Some total_entries \<Rightarrow> list_entries (unat total_entries) a1 [])"

subsection \<open>Vocabulary of the properties\<close>

text \<open>The size of an entry record and the offsets of the \<open>k\<close>-th record and of its content.\<close>

definition entry_size :: "src_file \<Rightarrow> nat" where
  "entry_size f = 26 + length (sf_path f) + length (sf_content f)"

definition entry_offset :: "src_file list \<Rightarrow> nat \<Rightarrow> nat" where
  "entry_offset files k = 22 + sum_list (map entry_size (take k files))"

definition content_offset :: "src_file list \<Rightarrow> nat \<Rightarrow> nat" where
  "content_offset files k = entry_offset files k + 26 + length (sf_path (files ! k))"

text \<open>What the format can hold: the widths of the count and length fields.\<close>

definition representable :: "src_file list \<Rightarrow> bool" where
  "representable files =
     (length files < 2 ^ 32 \<and>
      list_all (\<lambda>f. length (sf_path f) < 2 ^ 32 \<and> length (sf_content f) < 2 ^ 63) files)"

text \<open>
  The three calls of \<^verbatim>\<open>unpack\<close> for one entry, and the calls for the files of a tree
  as \<^verbatim>\<open>pack\<close> stores them (with the permission bits 0644).
\<close>

definition entry_calls :: "path \<Rightarrow> path \<Rightarrow> byte list \<Rightarrow> u16 \<Rightarrow> fs_call list" where
  "entry_calls target_dir rel_path content perm =
     [CreateParentDirectories (path_join target_dir rel_path),
      OfstreamWrite (path_join target_dir rel_path) content,
      Permissions (path_join target_dir rel_path) perm]"

fun extraction_calls :: "path \<Rightarrow> src_file list \<Rightarrow> fs_call list" where
  "extraction_calls target_dir [] = []"
| "extraction_calls target_dir (f # files) =
     entry_calls target_dir (sf_path f) (sf_content f) 420 @ extraction_calls target_dir files"

text \<open>No call of a sequence throws, when the sequence is made after the calls \<open>made\<close>.\<close>

fun accepted :: "file_system \<Rightarrow> fs_call list \<Rightarrow> fs_call list \<Rightarrow> bool" where
  "accepted fsys made [] = True"
| "accepted fsys made (c # cs) = (\<not> throws fsys made c \<and> accepted fsys (made @ [c]) cs)"

text \<open>
  The writes of a sequence of calls that reach the file system (the path and the bytes
  of every \<open>OfstreamWrite\<close> that does not fail), and the sequences all of whose writes
  do.
\<close>

fun landed :: "file_system \<Rightarrow> fs_call list \<Rightarrow> fs_call list \<Rightarrow> (path \<times> byte list) list" where
  "landed fsys made [] = []"
| "landed fsys made (c # cs) =
     (case c of
        OfstreamWrite p b \<Rightarrow> if fsys made c then [] else [(p, b)]
      | _ \<Rightarrow> [])
     @ landed fsys (made @ [c]) cs"

fun writes_land :: "file_system \<Rightarrow> fs_call list \<Rightarrow> fs_call list \<Rightarrow> bool" where
  "writes_land fsys made [] = True"
| "writes_land fsys made (c # cs) =
     ((case c of OfstreamWrite p b \<Rightarrow> \<not> fsys made c | _ \<Rightarrow> True)
      \<and> writes_land fsys (made @ [c]) cs)"

text \<open>A file system on which no call fails.\<close>

definition willing :: file_system where
  "willing made c = False"

text \<open>
  Entry records in general: a header, a path and a content. A record is well formed when
  its length fields are the lengths of the path and of the content and its checksum is
  that of the content.
\<close>

type_synonym entry = "EntryHeader \<times> path \<times> byte list"

fun entry_bytes :: "entry \<Rightarrow> byte list" where
  "entry_bytes (e, pth, cnt) = EntryHeader_bytes e @ pth @ cnt"

fun entries_bytes :: "entry list \<Rightarrow> byte list" where
  "entries_bytes [] = []"
| "entries_bytes (en # es) = entry_bytes en @ entries_bytes es"

fun well_formed :: "entry \<Rightarrow> bool" where
  "well_formed (e, pth, cnt) =
     (unat (path_length e) = length pth \<and> unat (content_size e) = length cnt \<and>
      length cnt < 2 ^ 63 \<and> checksum e = calculate cnt)"

fun stored_calls :: "path \<Rightarrow> entry list \<Rightarrow> fs_call list" where
  "stored_calls target_dir [] = []"
| "stored_calls target_dir ((e, pth, cnt) # es) =
     entry_calls target_dir pth cnt (permissions e) @ stored_calls target_dir es"

text \<open>The records that the loop of \<open>pack\<close> writes.\<close>

fun packed_entries :: "(nat \<Rightarrow> u64) \<Rightarrow> nat \<Rightarrow> src_file list \<Rightarrow> entry list" where
  "packed_entries clock k [] = []"
| "packed_entries clock k (f # files) =
     (entry_header_of (clock k) f, sf_path f, sf_content f) # packed_entries clock (Suc k) files"

text \<open>
  The length fields as a container stores them: starting at the offset \<open>off\<close>, read
  \<open>n\<close> records from the bytes of the container, each at the offset where the stored
  lengths of the one before it say that it ends, and give the stored path length and
  content size of each. \<open>None\<close> when a record does not lie within the container.
\<close>

fun stored_lengths :: "nat \<Rightarrow> nat \<Rightarrow> byte list \<Rightarrow> (nat \<times> nat) list option" where
  "stored_lengths 0 off bytes = Some []"
| "stored_lengths (Suc n) off bytes =
     (case (field 0 4 (drop off bytes) :: u32 option) of
        None \<Rightarrow> None
      | Some pl \<Rightarrow>
          (case (field 4 8 (drop off bytes) :: u64 option) of
             None \<Rightarrow> None
           | Some cs \<Rightarrow>
               if off + 26 + unat pl + unat cs \<le> length bytes
               then map_option (\<lambda>rest. (unat pl, unat cs) # rest)
                      (stored_lengths n (off + 26 + unat pl + unat cs) bytes)
               else None))"

text \<open>The archive file that a successful \<open>pack\<close> leaves.\<close>

definition packed :: "(nat \<Rightarrow> u64) \<Rightarrow> src_file list \<Rightarrow> byte list" where
  "packed clock files =
     FileHeader_bytes
       \<lparr>magic = KAR_MAGIC, version = 1, entry_count = of_nat (length files),
        created_at = clock 0, reserved = 0\<rparr>
     @ write_entries clock 1 files"

text \<open>Path and content literals: the bytes of an ASCII string.\<close>

definition ascii :: "string \<Rightarrow> byte list" where
  "ascii s = map of_char s"

text \<open>
  The tree of the repository's tests (\<^verbatim>\<open>a.txt\<close>, \<^verbatim>\<open>subdir/b.txt\<close>, a zero-byte
  \<^verbatim>\<open>empty.txt\<close>) and a clock, for the instances below.
\<close>

definition example_tree :: "src_file list" where
  "example_tree =
     [\<lparr>sf_path = ascii ''a.txt'', sf_content = ascii ''hello'', sf_mode = 420, sf_mtime = 1700000000\<rparr>,
      \<lparr>sf_path = ascii ''subdir/b.txt'', sf_content = ascii ''world'', sf_mode = 384, sf_mtime = 1700000100\<rparr>,
      \<lparr>sf_path = ascii ''empty.txt'', sf_content = [], sf_mode = 493, sf_mtime = 1700000200\<rparr>]"

definition example_clock :: "nat \<Rightarrow> u64" where
  "example_clock k = 1750000000 + of_nat k"

section \<open>Checksum engine: properties\<close>

lemma crc_rounds_8:
  "crc_rounds 8 c =
     crc_round (crc_round (crc_round (crc_round (crc_round (crc_round (crc_round (crc_round c)))))))"
proof -
  have "(8::nat) = Suc (Suc (Suc (Suc (Suc (Suc (Suc (Suc 0)))))))" by simp
  then show ?thesis by (simp only: crc_rounds.simps)
qed

lemma init_table_length: "length init_table = 256"
  by (simp add: init_table_def)

lemma init_table_nth: "init_table ! unat (b :: byte) = crc_rounds 8 (ucast b)"
proof -
  have "unat b < 256" using unsigned_less [of b] by simp
  then show ?thesis by (simp add: init_table_def)
qed

lemma crc_round_alt: "crc_round x = drop_bit 1 x XOR (if odd x then POLYNOMIAL else 0)"
  by (auto simp add: crc_round_def and_one_eq even_iff_mod_2_eq_zero)

text \<open>A round is linear over XOR, and so is any number of rounds.\<close>

lemma crc_round_xor: "crc_round (x XOR y) = crc_round x XOR crc_round y"
  by (cases "odd x"; cases "odd y") (simp_all add: crc_round_alt drop_bit_xor even_xor_iff ac_simps)

lemma crc_rounds_xor: "crc_rounds n (x XOR y) = crc_rounds n x XOR crc_rounds n y"
  by (induction n arbitrary: x y) (simp_all add: crc_round_xor)

lemma take_bit_zero_bits:
  fixes x :: u32
  assumes "take_bit n x = 0" and "i < n"
  shows "\<not> bit x i"
proof
  assume "bit x i"
  with assms(2) have "bit (take_bit n x) i" by (simp add: bit_take_bit_iff)
  with assms(1) show False by simp
qed

text \<open>On a value whose low \<open>n\<close> bits are clear, \<open>n\<close> rounds only shift.\<close>

lemma crc_rounds_low_zero: "take_bit n x = 0 \<Longrightarrow> crc_rounds n x = drop_bit n x"
proof (induction n arbitrary: x)
  case 0
  then show ?case by simp
next
  case (Suc n)
  have ev: "even x" using take_bit_zero_bits [OF Suc.prems, of 0]
    by (simp add: bit_0)
  have "take_bit n (drop_bit 1 x) = 0"
  proof (rule bit_eqI)
    fix i
    show "bit (take_bit n (drop_bit 1 x)) i = bit (0 :: u32) i"
      using take_bit_zero_bits [OF Suc.prems, of "Suc i"]
      by (auto simp add: bit_take_bit_iff bit_drop_bit_eq)
  qed
  then show ?case using ev Suc.IH [of "drop_bit 1 x"]
    by (simp add: crc_round_alt)
qed

lemma low_byte_ucast: "(ucast (ucast (v AND 0xFF :: u32) :: byte) :: u32) = take_bit 8 v"
proof -
  have "(0xFF :: u32) = mask 8" by (simp add: mask_eq_exp_minus_1)
  then have "v AND 0xFF = take_bit 8 v" by (simp add: take_bit_eq_mask)
  moreover have "(ucast (ucast (take_bit 8 v) :: byte) :: u32) = take_bit 8 v"
    by (rule bit_eqI) (auto simp add: bit_simps)
  ultimately show ?thesis by simp
qed

lemma drop_bit_8_ucast_byte: "drop_bit 8 (ucast (d :: byte) :: u32) = 0"
  by (rule bit_eqI) (auto simp add: bit_simps dest: bit_imp_le_length)

lemma crc_rounds_8_split: "crc_rounds 8 v = drop_bit 8 v XOR crc_rounds 8 (take_bit 8 v)"
proof -
  define hi where "hi = v XOR take_bit 8 v"
  have lo: "take_bit 8 hi = 0"
    by (simp add: hi_def take_bit_xor)
  have "drop_bit 8 (take_bit 8 v) = 0"
    by (rule bit_eqI) (simp add: bit_simps)
  then have dr: "drop_bit 8 hi = drop_bit 8 v"
    by (simp add: hi_def)
  have "v = hi XOR take_bit 8 v"
    by (simp add: hi_def xor.assoc)
  then have "crc_rounds 8 v = crc_rounds 8 hi XOR crc_rounds 8 (take_bit 8 v)"
    using crc_rounds_xor [of 8 hi "take_bit 8 v"] by simp
  then show ?thesis
    using crc_rounds_low_zero [OF lo] dr by simp
qed

text \<open>The table lookup of \<open>crc_update\<close> is eight rounds on the accumulator XOR the byte.\<close>

lemma crc_update_bitwise: "crc_update crc d = crc_rounds 8 (crc XOR ucast d)"
proof -
  have "take_bit 8 (crc XOR ucast d) = ucast (ucast ((crc XOR ucast d) AND 0xFF) :: byte)"
    by (simp only: low_byte_ucast)
  moreover have "drop_bit 8 (crc XOR ucast d) = drop_bit 8 crc"
    by (simp add: drop_bit_8_ucast_byte)
  ultimately show ?thesis
    using crc_rounds_8_split [of "crc XOR ucast d"]
    by (simp add: crc_update_def init_table_nth Let_def)
qed

lemma calculate_bitwise: "calculate buf = crc32_bitwise buf"
proof -
  have "crc_update = (\<lambda>crc d. crc_rounds 8 (crc XOR ucast d))"
    by (intro ext) (rule crc_update_bitwise)
  then show ?thesis by (simp add: calculate_def crc32_bitwise_def)
qed

text \<open>A round can be undone: bit 31 of its result tells whether the polynomial was applied.\<close>

lemma crc_round_top: "bit (crc_round x) 31 \<longleftrightarrow> odd x"
  by (auto simp add: crc_round_alt bit_xor_iff bit_drop_bit_eq POLYNOMIAL_def dest: bit_imp_le_length)

lemma xor_right_cancel:
  fixes a b c :: u32
  assumes "a XOR c = b XOR c" shows "a = b"
proof -
  have "(a XOR c) XOR c = (b XOR c) XOR c" using assms by simp
  then show ?thesis by (simp add: xor.assoc)
qed

lemma xor_left_cancel:
  fixes a b c :: u32
  assumes "c XOR a = c XOR b" shows "a = b"
  using assms xor_right_cancel [of a c b] by (simp add: xor.commute)

lemma crc_round_inj:
  assumes "crc_round x = crc_round y" shows "x = y"
proof -
  have o: "odd x \<longleftrightarrow> odd y" using assms crc_round_top by metis
  with assms have d: "drop_bit 1 x = drop_bit 1 y"
    by (auto simp add: crc_round_alt split: if_splits dest: xor_right_cancel)
  show ?thesis
  proof (rule bit_eqI)
    fix i
    show "bit x i = bit y i"
    proof (cases i)
      case 0
      then show ?thesis using o by (simp add: bit_0)
    next
      case (Suc j)
      have "bit (drop_bit 1 x) j = bit (drop_bit 1 y) j" using d by simp
      then show ?thesis using Suc by (simp add: bit_drop_bit_eq)
    qed
  qed
qed

lemma crc_rounds_inj: "crc_rounds n x = crc_rounds n y \<Longrightarrow> x = y"
  by (induction n arbitrary: x y) (auto dest: crc_round_inj)

lemma ucast_byte_inj:
  assumes "(ucast (a :: byte) :: u32) = ucast b" shows "a = b"
proof (rule bit_word_eqI)
  fix i
  assume "i < LENGTH(8)"
  moreover have "bit (ucast a :: u32) i = bit (ucast b :: u32) i" using assms by simp
  ultimately show "bit a i = bit b i"
    by (simp add: bit_simps)
qed

lemma crc_update_inj_state: "crc_update s d = crc_update s' d \<Longrightarrow> s = s'"
  by (auto simp add: crc_update_bitwise dest!: crc_rounds_inj xor_right_cancel)

lemma crc_update_inj_byte: "crc_update s d = crc_update s d' \<Longrightarrow> d = d'"
  by (auto simp add: crc_update_bitwise dest!: crc_rounds_inj xor_left_cancel ucast_byte_inj)

lemma foldl_crc_update_inj:
  "foldl crc_update s ys = foldl crc_update s' ys \<Longrightarrow> s = s'"
  by (induction ys arbitrary: s s') (auto dest: crc_update_inj_state)

text \<open>Two buffers that differ in exactly one byte have different checksums.\<close>

lemma calculate_single_byte:
  assumes "d \<noteq> d'"
  shows "calculate (xs @ d # ys) \<noteq> calculate (xs @ d' # ys)"
proof
  assume "calculate (xs @ d # ys) = calculate (xs @ d' # ys)"
  then have "foldl crc_update (crc_update (foldl crc_update 0xFFFFFFFF xs) d) ys
           = foldl crc_update (crc_update (foldl crc_update 0xFFFFFFFF xs) d') ys"
    by (auto simp add: calculate_def dest: xor_right_cancel)
  then have "d = d'"
    by (auto dest!: foldl_crc_update_inj crc_update_inj_byte)
  with assms show False by simp
qed

lemma calculate_update:
  assumes "j < length c" and "b \<noteq> c ! j"
  shows "calculate (c[j := b]) \<noteq> calculate c"
proof -
  have "c = take j c @ c ! j # drop (Suc j) c"
    using assms(1) by (simp add: id_take_nth_drop)
  moreover have "c[j := b] = take j c @ b # drop (Suc j) c"
    using assms(1) by (simp add: upd_conv_take_nth_drop)
  ultimately show ?thesis
    using calculate_single_byte [OF assms(2), of "take j c" "drop (Suc j) c"] by metis
qed

text \<open>Evaluation on given buffers.\<close>

lemmas crc_eval = calculate_def crc_update_def init_table_nth crc_rounds_8 crc_round_def POLYNOMIAL_def

lemma calculate_empty: "calculate [] = 0"
  by (simp add: calculate_def)

lemma calculate_a: "calculate [0x61] = 0xE8B7BE43"
  by (simp add: crc_eval)

lemma calculate_abc: "calculate [0x61, 0x62, 0x63] = 0x352441C2"
  by (simp add: crc_eval)

lemma calculate_digits:
  "calculate [0x31, 0x32, 0x33, 0x34, 0x35, 0x36, 0x37, 0x38, 0x39] = 0xCBF43926"
  by (simp add: crc_eval)

lemma calculate_zero_nonempty: "calculate [0x9D, 0x0A, 0xD9, 0x6D] = 0"
  by (simp add: crc_eval)

section \<open>Container format: properties\<close>

lemma length_le_bytes: "length (le_bytes n w) = n"
  by (induction n arbitrary: w) simp_all

lemma le_word_le_bytes: "le_word (le_bytes n w) = take_bit (8 * n) w"
proof (induction n arbitrary: w)
  case 0
  then show ?case by simp
next
  case (Suc n)
  have "ucast (ucast w :: byte) OR push_bit 8 (take_bit (8 * n) (drop_bit 8 w))
        = take_bit (8 * Suc n) w"
    by (rule bit_eqI) (auto simp add: bit_simps)
  then show ?case by (simp add: Suc.IH)
qed

lemma le_word_le_bytes_u16: "le_word (le_bytes 2 (w :: u16)) = w"
  by (simp add: le_word_le_bytes take_bit_word_eq_self)

lemma le_word_le_bytes_u32: "le_word (le_bytes 4 (w :: u32)) = w"
  by (simp add: le_word_le_bytes take_bit_word_eq_self)

lemma le_word_le_bytes_u64: "le_word (le_bytes 8 (w :: u64)) = w"
  by (simp add: le_word_le_bytes take_bit_word_eq_self)

lemmas le_roundtrip = le_word_le_bytes_u16 le_word_le_bytes_u32 le_word_le_bytes_u64

lemma length_FileHeader_bytes: "length (FileHeader_bytes h) = 22"
  by (simp add: FileHeader_bytes_def length_le_bytes)

lemma length_EntryHeader_bytes: "length (EntryHeader_bytes e) = 26"
  by (simp add: EntryHeader_bytes_def length_le_bytes)

text \<open>Every field is read back from the bytes of a header, whatever follows them.\<close>

lemma field_FileHeader:
  "field 0 4 (FileHeader_bytes h @ rest) = Some (magic h)"
  "field 4 2 (FileHeader_bytes h @ rest) = Some (version h)"
  "field 6 4 (FileHeader_bytes h @ rest) = Some (entry_count h)"
  "field 10 8 (FileHeader_bytes h @ rest) = Some (created_at h)"
  "field 18 4 (FileHeader_bytes h @ rest) = Some (reserved h)"
  by (simp_all add: field_def FileHeader_bytes_def length_le_bytes le_roundtrip)

lemma field_EntryHeader:
  "field 0 4 (EntryHeader_bytes e @ rest) = Some (path_length e)"
  "field 4 8 (EntryHeader_bytes e @ rest) = Some (content_size e)"
  "field 12 8 (EntryHeader_bytes e @ rest) = Some (modified_time e)"
  "field 20 4 (EntryHeader_bytes e @ rest) = Some (checksum e)"
  "field 24 2 (EntryHeader_bytes e @ rest) = Some (permissions e)"
  by (simp_all add: field_def EntryHeader_bytes_def length_le_bytes le_roundtrip)

lemma field_FileHeader_exact:
  "field 0 4 (FileHeader_bytes h) = Some (magic h)"
  "field 4 2 (FileHeader_bytes h) = Some (version h)"
  "field 6 4 (FileHeader_bytes h) = Some (entry_count h)"
  using field_FileHeader [of h "[]"] by simp_all

lemma field_EntryHeader_exact:
  "field 0 4 (EntryHeader_bytes e) = Some (path_length e)"
  "field 4 8 (EntryHeader_bytes e) = Some (content_size e)"
  "field 20 4 (EntryHeader_bytes e) = Some (checksum e)"
  "field 24 2 (EntryHeader_bytes e) = Some (permissions e)"
  using field_EntryHeader [of e "[]"] by simp_all

section \<open>Streams: properties\<close>

text \<open>A read that the file can satisfy stores exactly the next bytes and keeps the flag clear.\<close>

lemma stream_read_exact:
  assumes "drop p d = xs @ rest"
  shows "stream_read (length xs) \<lparr>s_data = d, s_pos = p, s_fail = False\<rparr>
         = (xs, \<lparr>s_data = d, s_pos = p + length xs, s_fail = False\<rparr>)"
  using assms by (simp add: stream_read_def Let_def)

lemma drop_after_read:
  assumes "drop p d = xs @ rest"
  shows "drop (p + length xs) d = rest"
proof -
  have "drop (length xs) (drop p d) = rest" using assms by simp
  then show ?thesis by (simp add: add.commute)
qed

lemma zero_filled_full: "zero_filled (length xs) xs = xs"
  by (simp add: zero_filled_def)

section \<open>Writer and reader: properties\<close>

lemma length_write_entry: "length (write_entry now f) = entry_size f"
  by (simp add: write_entry_def entry_size_def length_EntryHeader_bytes)

lemma length_write_entries:
  "length (write_entries clock k files) = sum_list (map entry_size files)"
  by (induction files arbitrary: k) (simp_all add: length_write_entry)

lemma write_entries_append:
  "write_entries clock k (xs @ ys)
   = write_entries clock k xs @ write_entries clock (k + length xs) ys"
  by (induction xs arbitrary: k) simp_all

lemma write_entries_split:
  assumes "i < length files"
  shows "write_entries clock k files
         = write_entries clock k (take i files) @ write_entry (clock (k + i)) (files ! i)
           @ write_entries clock (Suc (k + i)) (drop (Suc i) files)"
proof -
  have "files = take i files @ files ! i # drop (Suc i) files"
    using assms by (simp add: id_take_nth_drop)
  then have "write_entries clock k files
             = write_entries clock k (take i files @ files ! i # drop (Suc i) files)"
    by simp
  also have "\<dots> = write_entries clock k (take i files) @ write_entry (clock (k + i)) (files ! i)
                   @ write_entries clock (Suc (k + i)) (drop (Suc i) files)"
    using assms by (simp add: write_entries_append min_def)
  finally show ?thesis .
qed

lemma unat_path_length:
  "length (sf_path f) < 2 ^ 32 \<Longrightarrow> unat (path_length (entry_header_of now f)) = length (sf_path f)"
  by (simp add: entry_header_of_def unat_of_nat)

lemma unat_content_size:
  "length (sf_content f) < 2 ^ 63 \<Longrightarrow>
   unat (content_size (entry_header_of now f)) = length (sf_content f)"
  by (simp add: entry_header_of_def unat_of_nat)

text \<open>Sequences of calls that the file system accepts.\<close>

lemma accepted_append:
  "accepted fsys made (xs @ ys) \<longleftrightarrow> accepted fsys made xs \<and> accepted fsys (made @ xs) ys"
  by (induction xs arbitrary: made) simp_all

lemma accepted_entry_calls:
  "accepted fsys made (entry_calls target_dir pth cnt perm) \<longleftrightarrow>
     \<not> throws fsys made (CreateParentDirectories (path_join target_dir pth))
     \<and> \<not> throws fsys
           (made @ [CreateParentDirectories (path_join target_dir pth),
                    OfstreamWrite (path_join target_dir pth) cnt])
           (Permissions (path_join target_dir pth) perm)"
  by (simp add: entry_calls_def throws_def)

lemma accepted_willing: "accepted willing made cs"
  by (induction cs arbitrary: made) (simp_all add: throws_def willing_def split: fs_call.splits)

lemma writes_land_willing: "writes_land willing made cs"
  by (induction cs arbitrary: made) (simp_all add: willing_def split: fs_call.splits)

text \<open>
  One turn of the loop of \<open>unpack\<close> on a complete entry record whose length fields
  agree with the bytes that follow the header.
\<close>

lemma unpack_entries_step:
  assumes rec: "drop p d = EntryHeader_bytes e @ pth @ cnt @ rest"
    and pl: "unat (path_length e) = length pth"
    and cs: "unat (content_size e) = length cnt"
    and small: "length cnt < 2 ^ 63"
  shows "unpack_entries fsys (Suc n) target_dir \<lparr>s_data = d, s_pos = p, s_fail = False\<rparr> made
         = (if calculate cnt \<noteq> checksum e
            then (Throw (CRC32Mismatch pth (checksum e) (calculate cnt)), made)
            else if throws fsys made (CreateParentDirectories (path_join target_dir pth))
            then (Throw FilesystemError,
                  made @ [CreateParentDirectories (path_join target_dir pth)])
            else if throws fsys
                      (made @ [CreateParentDirectories (path_join target_dir pth),
                               OfstreamWrite (path_join target_dir pth) cnt])
                      (Permissions (path_join target_dir pth) (permissions e))
            then (Throw FilesystemError, made @ entry_calls target_dir pth cnt (permissions e))
            else unpack_entries fsys n target_dir
                   \<lparr>s_data = d, s_pos = p + 26 + length pth + length cnt, s_fail = False\<rparr>
                   (made @ entry_calls target_dir pth cnt (permissions e)))"
proof -
  have r1: "stream_read 26 \<lparr>s_data = d, s_pos = p, s_fail = False\<rparr>
            = (EntryHeader_bytes e, \<lparr>s_data = d, s_pos = p + 26, s_fail = False\<rparr>)"
    using stream_read_exact [OF rec] by (simp add: length_EntryHeader_bytes)
  have d1: "drop (p + 26) d = pth @ cnt @ rest"
    using drop_after_read [OF rec] by (simp add: length_EntryHeader_bytes)
  have r2: "stream_read (length pth) \<lparr>s_data = d, s_pos = p + 26, s_fail = False\<rparr>
            = (pth, \<lparr>s_data = d, s_pos = p + 26 + length pth, s_fail = False\<rparr>)"
    using stream_read_exact [OF d1] by simp
  have d2: "drop (p + 26 + length pth) d = cnt @ rest"
    using drop_after_read [OF d1] by simp
  have r3: "stream_read (length cnt) \<lparr>s_data = d, s_pos = p + 26 + length pth, s_fail = False\<rparr>
            = (cnt, \<lparr>s_data = d, s_pos = p + 26 + length pth + length cnt, s_fail = False\<rparr>)"
    using stream_read_exact [OF d2] by simp
  have ns: "\<not> (2 :: nat) ^ 63 \<le> length cnt" using small by simp
  have ec: "made @ entry_calls target_dir pth cnt (permissions e)
            = (made @ [CreateParentDirectories (path_join target_dir pth),
                       OfstreamWrite (path_join target_dir pth) cnt])
              @ [Permissions (path_join target_dir pth) (permissions e)]"
    by (simp add: entry_calls_def)
  show ?thesis
    by (simp only: unpack_entries.simps r1 r2 r3 pl cs ns ec Let_def prod.case option.case
                   field_EntryHeader_exact zero_filled_full if_False)
qed

text \<open>The loop of \<open>unpack\<close> on well-formed records whose calls the file system accepts.\<close>

lemma unpack_entries_stored:
  assumes "drop p d = entries_bytes es @ rest"
    and "list_all well_formed es"
    and "accepted fsys made (stored_calls target_dir es)"
  shows "unpack_entries fsys (length es + m) target_dir \<lparr>s_data = d, s_pos = p, s_fail = False\<rparr> made
         = unpack_entries fsys m target_dir
             \<lparr>s_data = d, s_pos = p + length (entries_bytes es), s_fail = False\<rparr>
             (made @ stored_calls target_dir es)"
  using assms
proof (induction es arbitrary: p made)
  case Nil
  then show ?case by simp
next
  case (Cons en es)
  obtain e pth cnt where en: "en = (e, pth, cnt)" by (cases en) auto
  have rec: "drop p d = EntryHeader_bytes e @ pth @ cnt @ (entries_bytes es @ rest)"
    using Cons.prems(1) by (simp add: en)
  have wf: "unat (path_length e) = length pth" "unat (content_size e) = length cnt"
           "length cnt < 2 ^ 63" "checksum e = calculate cnt"
    using Cons.prems(2) by (simp_all add: en)
  have acc: "accepted fsys made (entry_calls target_dir pth cnt (permissions e))"
    and acc_rest: "accepted fsys (made @ entry_calls target_dir pth cnt (permissions e))
                     (stored_calls target_dir es)"
    using Cons.prems(3) by (simp_all add: en accepted_append)
  have "drop p d = (EntryHeader_bytes e @ pth @ cnt) @ (entries_bytes es @ rest)"
    using rec by simp
  from drop_after_read [OF this]
  have nxt: "drop (p + 26 + length pth + length cnt) d = entries_bytes es @ rest"
    by (simp add: length_EntryHeader_bytes add.assoc)
  have rest_ok: "list_all well_formed es"
    using Cons.prems(2) by simp
  have "unpack_entries fsys (length (en # es) + m) target_dir
          \<lparr>s_data = d, s_pos = p, s_fail = False\<rparr> made
        = unpack_entries fsys (length es + m) target_dir
            \<lparr>s_data = d, s_pos = p + 26 + length pth + length cnt, s_fail = False\<rparr>
            (made @ entry_calls target_dir pth cnt (permissions e))"
    using unpack_entries_step [OF rec wf(1) wf(2) wf(3), of fsys "length es + m" target_dir made]
          acc wf(4)
    by (simp add: accepted_entry_calls)
  also have "\<dots> = unpack_entries fsys m target_dir
            \<lparr>s_data = d,
             s_pos = p + 26 + length pth + length cnt + length (entries_bytes es),
             s_fail = False\<rparr>
            ((made @ entry_calls target_dir pth cnt (permissions e)) @ stored_calls target_dir es)"
    by (rule Cons.IH [OF nxt rest_ok acc_rest])
  finally show ?case
    by (simp add: en length_EntryHeader_bytes add.assoc)
qed

text \<open>What \<open>pack\<close> writes, as records.\<close>

lemma write_entries_packed_entries:
  "write_entries clock k files = entries_bytes (packed_entries clock k files)"
  by (induction files arbitrary: k) (simp_all add: write_entry_def)

lemma stored_calls_packed_entries:
  "stored_calls target_dir (packed_entries clock k files) = extraction_calls target_dir files"
  by (induction files arbitrary: k) (simp_all add: entry_header_of_def)

lemma well_formed_packed_entries:
  assumes "list_all (\<lambda>f. length (sf_path f) < 2 ^ 32 \<and> length (sf_content f) < 2 ^ 63) files"
  shows "list_all well_formed (packed_entries clock k files)"
  using assms
  by (induction files arbitrary: k)
     (simp_all add: unat_path_length unat_content_size, simp add: entry_header_of_def)

lemma length_packed_entries: "length (packed_entries clock k files) = length files"
  by (induction files arbitrary: k) simp_all

text \<open>The loop of \<open>unpack\<close> on the records that the loop of \<open>pack\<close> wrote.\<close>

lemma unpack_entries_written:
  assumes "drop p d = write_entries clock k files @ rest"
    and "list_all (\<lambda>f. length (sf_path f) < 2 ^ 32 \<and> length (sf_content f) < 2 ^ 63) files"
    and "accepted fsys made (extraction_calls target_dir files)"
  shows "unpack_entries fsys (length files + m) target_dir \<lparr>s_data = d, s_pos = p, s_fail = False\<rparr> made
         = unpack_entries fsys m target_dir
             \<lparr>s_data = d, s_pos = p + length (write_entries clock k files), s_fail = False\<rparr>
             (made @ extraction_calls target_dir files)"
proof -
  have dr: "drop p d = entries_bytes (packed_entries clock k files) @ rest"
    using assms(1) by (simp add: write_entries_packed_entries)
  have acc: "accepted fsys made (stored_calls target_dir (packed_entries clock k files))"
    using assms(3) by (simp add: stored_calls_packed_entries)
  show ?thesis
    using unpack_entries_stored [OF dr well_formed_packed_entries [OF assms(2)] acc, of m]
    by (simp add: length_packed_entries stored_calls_packed_entries write_entries_packed_entries)
qed

text \<open>The global header of \<open>unpack\<close> on a stream that starts with a complete header.\<close>

lemma unpack_header:
  "unpack fsys (Some (FileHeader_bytes h @ rest)) target_dir
   = (if magic h \<noteq> KAR_MAGIC then (Throw WrongMagic, [])
      else unpack_entries fsys (unat (entry_count h)) target_dir
             \<lparr>s_data = FileHeader_bytes h @ rest, s_pos = 22, s_fail = False\<rparr> [])"
proof -
  have "drop 0 (FileHeader_bytes h @ rest) = FileHeader_bytes h @ rest" by simp
  from stream_read_exact [OF this]
  have r: "stream_read 22 \<lparr>s_data = FileHeader_bytes h @ rest, s_pos = 0, s_fail = False\<rparr>
           = (FileHeader_bytes h, \<lparr>s_data = FileHeader_bytes h @ rest, s_pos = 22, s_fail = False\<rparr>)"
    by (simp add: length_FileHeader_bytes)
  show ?thesis
    by (simp add: unpack_def open_stream_def r field_FileHeader_exact)
qed

lemma list_header:
  "list_archive (Some (FileHeader_bytes h @ rest))
   = list_entries (unat (entry_count h))
       \<lparr>s_data = FileHeader_bytes h @ rest, s_pos = 22, s_fail = False\<rparr> []"
proof -
  have "drop 0 (FileHeader_bytes h @ rest) = FileHeader_bytes h @ rest" by simp
  from stream_read_exact [OF this]
  have r: "stream_read 22 \<lparr>s_data = FileHeader_bytes h @ rest, s_pos = 0, s_fail = False\<rparr>
           = (FileHeader_bytes h, \<lparr>s_data = FileHeader_bytes h @ rest, s_pos = 22, s_fail = False\<rparr>)"
    by (simp add: length_FileHeader_bytes)
  show ?thesis
    by (simp add: list_archive_def open_stream_def r field_FileHeader_exact)
qed

lemma pack_success:
  "pack (Some files) can_create clock = Inr bytes \<longleftrightarrow> can_create \<and> bytes = packed clock files"
  by (auto simp add: pack_def packed_def)

lemma length_packed: "length (packed clock files) = 22 + sum_list (map entry_size files)"
  by (simp add: packed_def length_FileHeader_bytes length_write_entries)

text \<open>
  \<open>unpack\<close> on a container of well-formed records: when the file system accepts
  the calls, they are made for every record in order and the run returns.
\<close>

lemma unpack_stored:
  assumes "magic h = KAR_MAGIC"
    and "unat (entry_count h) = length es"
    and "list_all well_formed es"
    and "accepted fsys [] (stored_calls target_dir es)"
  shows "unpack fsys (Some (FileHeader_bytes h @ entries_bytes es)) target_dir
         = (Done, stored_calls target_dir es)"
proof -
  have dr: "drop 22 (FileHeader_bytes h @ entries_bytes es) = entries_bytes es @ []"
    by (simp add: length_FileHeader_bytes)
  have "unpack fsys (Some (FileHeader_bytes h @ entries_bytes es)) target_dir
        = unpack_entries fsys (length es + 0) target_dir
            \<lparr>s_data = FileHeader_bytes h @ entries_bytes es, s_pos = 22, s_fail = False\<rparr> []"
    using assms(1,2) by (simp add: unpack_header)
  also have "\<dots> = unpack_entries fsys 0 target_dir
            \<lparr>s_data = FileHeader_bytes h @ entries_bytes es,
             s_pos = 22 + length (entries_bytes es), s_fail = False\<rparr>
            ([] @ stored_calls target_dir es)"
    by (rule unpack_entries_stored [OF dr assms(3) assms(4)])
  finally show ?thesis by simp
qed

text \<open>Unpacking what \<open>pack\<close> wrote makes the calls for every file.\<close>

lemma packed_as_records:
  "packed clock files
   = FileHeader_bytes
       \<lparr>magic = KAR_MAGIC, version = 1, entry_count = of_nat (length files),
        created_at = clock 0, reserved = 0\<rparr>
     @ entries_bytes (packed_entries clock 1 files)"
  by (simp add: packed_def write_entries_packed_entries)

lemma unpack_packed:
  assumes "representable files"
    and "accepted fsys [] (extraction_calls target_dir files)"
  shows "unpack fsys (Some (packed clock files)) target_dir
         = (Done, extraction_calls target_dir files)"
proof -
  let ?h = "\<lparr>magic = KAR_MAGIC, version = 1, entry_count = of_nat (length files),
             created_at = clock 0, reserved = 0\<rparr>"
  have m: "magic ?h = KAR_MAGIC" by simp
  have n: "unat (entry_count ?h) = length (packed_entries clock 1 files)"
    using assms(1) by (simp add: representable_def unat_of_nat length_packed_entries)
  have ok: "list_all (\<lambda>f. length (sf_path f) < 2 ^ 32 \<and> length (sf_content f) < 2 ^ 63) files"
    using assms(1) by (simp add: representable_def)
  have acc: "accepted fsys [] (stored_calls target_dir (packed_entries clock 1 files))"
    using assms(2) by (simp add: stored_calls_packed_entries)
  show ?thesis
    using unpack_stored [OF m n well_formed_packed_entries [OF ok] acc]
    by (simp add: packed_as_records stored_calls_packed_entries)
qed

text \<open>The writes among the calls.\<close>

lemma extraction_calls_writes:
  "OfstreamWrite p c \<in> set (extraction_calls target_dir files)
   \<longleftrightarrow> (\<exists>f \<in> set files. p = path_join target_dir (sf_path f) \<and> c = sf_content f)"
  by (induction files) (auto simp add: entry_calls_def)

lemma landed_extraction_calls:
  assumes "writes_land fsys made (extraction_calls target_dir files)"
  shows "landed fsys made (extraction_calls target_dir files)
         = map (\<lambda>f. (path_join target_dir (sf_path f), sf_content f)) files"
  using assms by (induction files arbitrary: made) (simp_all add: entry_calls_def)

text \<open>A write that fails does not stop \<open>unpack\<close>: only the calls that throw count.\<close>

lemma accepted_ignores_writes:
  assumes "\<And>made c. (\<forall>p b. c \<noteq> OfstreamWrite p b) \<Longrightarrow> fsys made c = fsys' made c"
  shows "accepted fsys made cs = accepted fsys' made cs"
  using assms
  by (induction cs arbitrary: made) (auto simp add: throws_def split: fs_call.splits)

lemma stored_calls_writes:
  "list_all (\<lambda>(e, pth, cnt). OfstreamWrite (path_join target_dir pth) cnt
                  \<in> set (stored_calls target_dir es)) es"
proof -
  have "OfstreamWrite (path_join target_dir pth) cnt \<in> set (stored_calls target_dir es)"
    if "(e, pth, cnt) \<in> set es" for e pth cnt
    using that by (induction es) (auto simp add: entry_calls_def)
  then show ?thesis by (auto simp add: list_all_iff)
qed

text \<open>A change of one content byte in the archive, seen record by record.\<close>

lemma update_in_append:
  "i < length ys \<Longrightarrow> (xs @ ys @ zs)[length xs + i := b] = xs @ ys[i := b] @ zs"
  by (simp add: list_update_append)

lemma packed_corrupted:
  assumes k: "k < length files" and j: "j < length (sf_content (files ! k))"
  shows "(packed clock files)[content_offset files k + j := b]
         = FileHeader_bytes
             \<lparr>magic = KAR_MAGIC, version = 1, entry_count = of_nat (length files),
              created_at = clock 0, reserved = 0\<rparr>
           @ write_entries clock 1 (take k files)
           @ (EntryHeader_bytes (entry_header_of (clock (Suc k)) (files ! k))
              @ sf_path (files ! k) @ (sf_content (files ! k))[j := b])
           @ write_entries clock (Suc (Suc k)) (drop (Suc k) files)"
proof -
  let ?h = "\<lparr>magic = KAR_MAGIC, version = 1, entry_count = of_nat (length files),
             created_at = clock 0, reserved = 0\<rparr>"
  let ?pre = "FileHeader_bytes ?h @ write_entries clock 1 (take k files)
              @ EntryHeader_bytes (entry_header_of (clock (Suc k)) (files ! k)) @ sf_path (files ! k)"
  let ?post = "write_entries clock (Suc (Suc k)) (drop (Suc k) files)"
  have "packed clock files = ?pre @ sf_content (files ! k) @ ?post"
    using write_entries_split [OF k, of clock 1] by (simp add: packed_def write_entry_def)
  moreover have "length ?pre = content_offset files k"
    by (simp add: content_offset_def entry_offset_def length_FileHeader_bytes
                  length_EntryHeader_bytes length_write_entries)
  ultimately have "(packed clock files)[content_offset files k + j := b]
                   = ?pre @ (sf_content (files ! k))[j := b] @ ?post"
    using update_in_append [OF j, of ?pre ?post b] by simp
  then show ?thesis by simp
qed

lemma unpack_corrupted:
  assumes rep: "representable files"
    and k: "k < length files"
    and j: "j < length (sf_content (files ! k))"
    and b: "b \<noteq> sf_content (files ! k) ! j"
    and acc: "accepted fsys [] (extraction_calls target_dir (take k files))"
  shows "unpack fsys (Some ((packed clock files)[content_offset files k + j := b])) target_dir
         = (Throw (CRC32Mismatch (sf_path (files ! k))
                     (calculate (sf_content (files ! k)))
                     (calculate ((sf_content (files ! k))[j := b]))),
            extraction_calls target_dir (take k files))"
proof -
  let ?h = "\<lparr>magic = KAR_MAGIC, version = 1, entry_count = of_nat (length files),
             created_at = clock 0, reserved = 0\<rparr>"
  let ?f = "files ! k"
  let ?e = "entry_header_of (clock (Suc k)) ?f"
  let ?c = "(sf_content ?f)[j := b]"
  let ?post = "write_entries clock (Suc (Suc k)) (drop (Suc k) files)"
  let ?tail = "write_entries clock 1 (take k files) @ (EntryHeader_bytes ?e @ sf_path ?f @ ?c) @ ?post"
  let ?d = "FileHeader_bytes ?h @ ?tail"
  have d: "(packed clock files)[content_offset files k + j := b] = ?d"
    by (rule packed_corrupted [OF k j])
  have n: "unat (entry_count ?h) = length (take k files) + Suc (length files - Suc k)"
    using rep k by (simp add: representable_def unat_of_nat min_def)
  have ok: "list_all (\<lambda>f. length (sf_path f) < 2 ^ 32 \<and> length (sf_content f) < 2 ^ 63) files"
    using rep by (simp add: representable_def)
  then have okf: "length (sf_path ?f) < 2 ^ 32 \<and> length (sf_content ?f) < 2 ^ 63"
    using k by (simp add: list_all_length)
  have ok_pre: "list_all (\<lambda>f. length (sf_path f) < 2 ^ 32 \<and> length (sf_content f) < 2 ^ 63)
                  (take k files)"
    using ok by (auto simp add: list_all_iff dest: in_set_takeD)
  have dr: "drop 22 ?d = write_entries clock 1 (take k files)
                         @ ((EntryHeader_bytes ?e @ sf_path ?f @ ?c) @ ?post)"
    by (simp add: length_FileHeader_bytes)
  let ?p = "22 + length (write_entries clock 1 (take k files))"
  have dr2: "drop ?p ?d = EntryHeader_bytes ?e @ sf_path ?f @ ?c @ ?post"
    using drop_after_read [OF dr] by simp
  have pl: "unat (path_length ?e) = length (sf_path ?f)"
    using okf by (simp add: unat_path_length)
  have cs: "unat (content_size ?e) = length ?c"
    using okf by (simp add: unat_content_size)
  have small: "length ?c < 2 ^ 63" using okf by simp
  have bad: "calculate ?c \<noteq> checksum ?e"
    using calculate_update [OF j b] by (simp add: entry_header_of_def)
  have "unpack fsys (Some ?d) target_dir
        = unpack_entries fsys (length (take k files) + Suc (length files - Suc k)) target_dir
            \<lparr>s_data = ?d, s_pos = 22, s_fail = False\<rparr> []"
    using unpack_header [of fsys ?h ?tail target_dir] n by simp
  also have "\<dots> = unpack_entries fsys (Suc (length files - Suc k)) target_dir
            \<lparr>s_data = ?d, s_pos = ?p, s_fail = False\<rparr>
            ([] @ extraction_calls target_dir (take k files))"
    by (rule unpack_entries_written [OF dr ok_pre acc])
  also have "\<dots> = (Throw (CRC32Mismatch (sf_path ?f) (checksum ?e) (calculate ?c)),
                    [] @ extraction_calls target_dir (take k files))"
    using unpack_entries_step [OF dr2 pl cs small] bad by simp
  finally show ?thesis
    by (simp add: d entry_header_of_def)
qed

text \<open>A call that throws ends \<open>unpack\<close>: here the first call for the first file.\<close>

lemma unpack_first_call_throws:
  assumes rep: "representable (f # files)"
    and thr: "fsys [] (CreateParentDirectories (path_join target_dir (sf_path f)))"
  shows "unpack fsys (Some (packed clock (f # files))) target_dir
         = (Throw FilesystemError, [CreateParentDirectories (path_join target_dir (sf_path f))])"
proof -
  let ?h = "\<lparr>magic = KAR_MAGIC, version = 1, entry_count = of_nat (length (f # files)),
             created_at = clock 0, reserved = 0\<rparr>"
  let ?e = "entry_header_of (clock 1) f"
  let ?rest = "write_entries clock (Suc 1) files"
  let ?d = "FileHeader_bytes ?h @ EntryHeader_bytes ?e @ sf_path f @ sf_content f @ ?rest"
  have d: "packed clock (f # files) = ?d"
    by (simp add: packed_def write_entry_def)
  have "Suc (length files) < 2 ^ 32"
    using rep by (simp add: representable_def)
  then have "unat (of_nat (Suc (length files)) :: u32) = Suc (length files)"
    by (simp add: unat_of_nat del: of_nat_Suc)
  then have n: "unat (entry_count ?h) = Suc (length files)"
    by simp
  have okf: "length (sf_path f) < 2 ^ 32" "length (sf_content f) < 2 ^ 63"
    using rep by (simp_all add: representable_def)
  have dr: "drop 22 ?d = EntryHeader_bytes ?e @ sf_path f @ sf_content f @ ?rest"
    by (simp add: length_FileHeader_bytes)
  have pl: "unat (path_length ?e) = length (sf_path f)"
    using okf by (simp add: unat_path_length)
  have cs: "unat (content_size ?e) = length (sf_content f)"
    using okf by (simp add: unat_content_size)
  have ck: "checksum ?e = calculate (sf_content f)"
    by (simp add: entry_header_of_def)
  have "unpack fsys (Some ?d) target_dir
        = unpack_entries fsys (Suc (length files)) target_dir
            \<lparr>s_data = ?d, s_pos = 22, s_fail = False\<rparr> []"
    using unpack_header [of fsys ?h _ target_dir] n by simp
  also have "\<dots> = (Throw FilesystemError,
                    [CreateParentDirectories (path_join target_dir (sf_path f))])"
    using unpack_entries_step [OF dr pl cs okf(2), of fsys "length files" target_dir "[]"] ck thr
    by (simp add: throws_def)
  finally show ?thesis by (simp only: d)
qed

text \<open>The length fields that a container of \<open>pack\<close> stores, read back from its bytes.\<close>

lemma stored_lengths_written:
  assumes "drop off bytes = write_entries clock k files @ rest"
    and "list_all (\<lambda>f. length (sf_path f) < 2 ^ 32 \<and> length (sf_content f) < 2 ^ 63) files"
  shows "stored_lengths (length files) off bytes
         = Some (map (\<lambda>f. (length (sf_path f), length (sf_content f))) files)"
  using assms
proof (induction files arbitrary: off k)
  case Nil
  then show ?case by simp
next
  case (Cons f files)
  let ?e = "entry_header_of (clock k) f"
  have rec: "drop off bytes = EntryHeader_bytes ?e
                              @ (sf_path f @ sf_content f @ write_entries clock (Suc k) files @ rest)"
    using Cons.prems(1) by (simp add: write_entry_def)
  have f1: "field 0 4 (drop off bytes) = Some (path_length ?e)"
    and f2: "field 4 8 (drop off bytes) = Some (content_size ?e)"
    by (simp_all only: rec field_EntryHeader)
  have pl: "unat (path_length ?e) = length (sf_path f)"
    using Cons.prems(2) by (simp add: unat_path_length)
  have cs: "unat (content_size ?e) = length (sf_content f)"
    using Cons.prems(2) by (simp add: unat_content_size)
  have "drop off bytes = (EntryHeader_bytes ?e @ sf_path f @ sf_content f)
                         @ (write_entries clock (Suc k) files @ rest)"
    using rec by simp
  from drop_after_read [OF this]
  have nxt: "drop (off + 26 + length (sf_path f) + length (sf_content f)) bytes
             = write_entries clock (Suc k) files @ rest"
    by (simp add: length_EntryHeader_bytes add.assoc)
  have "length (drop off bytes) \<ge> 26 + length (sf_path f) + length (sf_content f)"
    by (simp only: rec) (simp add: length_EntryHeader_bytes)
  then have inside: "off + 26 + length (sf_path f) + length (sf_content f) \<le> length bytes"
    by simp
  have rest_ok: "list_all (\<lambda>f. length (sf_path f) < 2 ^ 32 \<and> length (sf_content f) < 2 ^ 63) files"
    using Cons.prems(2) by simp
  show ?case
    using Cons.IH [OF nxt rest_ok] inside
    by (simp add: f1 f2 pl cs)
qed

lemma packed_entry_at:
  assumes k: "k < length files"
  shows "drop (entry_offset files k) (packed clock files)
         = write_entry (clock (Suc k)) (files ! k)
           @ write_entries clock (Suc (Suc k)) (drop (Suc k) files)"
proof -
  let ?h = "\<lparr>magic = KAR_MAGIC, version = 1, entry_count = of_nat (length files),
             created_at = clock 0, reserved = 0\<rparr>"
  let ?pre = "FileHeader_bytes ?h @ write_entries clock 1 (take k files)"
  let ?rest = "write_entry (clock (Suc k)) (files ! k)
               @ write_entries clock (Suc (Suc k)) (drop (Suc k) files)"
  have "packed clock files = ?pre @ ?rest"
    using write_entries_split [OF k, of clock 1] by (simp add: packed_def)
  moreover have "length ?pre = entry_offset files k"
    by (simp add: entry_offset_def length_FileHeader_bytes length_write_entries)
  ultimately show ?thesis by (metis append_eq_conv_conj)
qed

lemma packed_entry_fields:
  assumes "k < length files"
  shows "field 0 4 (drop (entry_offset files k) (packed clock files))
           = Some (path_length (entry_header_of (clock (Suc k)) (files ! k)))"
    and "field 4 8 (drop (entry_offset files k) (packed clock files))
           = Some (content_size (entry_header_of (clock (Suc k)) (files ! k)))"
    and "field 12 8 (drop (entry_offset files k) (packed clock files))
           = Some (modified_time (entry_header_of (clock (Suc k)) (files ! k)))"
    and "field 20 4 (drop (entry_offset files k) (packed clock files))
           = Some (checksum (entry_header_of (clock (Suc k)) (files ! k)))"
    and "field 24 2 (drop (entry_offset files k) (packed clock files))
           = Some (permissions (entry_header_of (clock (Suc k)) (files ! k)))"
  by (simp_all only: packed_entry_at [OF assms] write_entry_def append_assoc field_EntryHeader)

lemma packed_content_at:
  assumes k: "k < length files" and j: "j < length (sf_content (files ! k))"
  shows "packed clock files ! (content_offset files k + j) = sf_content (files ! k) ! j"
proof -
  let ?h = "\<lparr>magic = KAR_MAGIC, version = 1, entry_count = of_nat (length files),
             created_at = clock 0, reserved = 0\<rparr>"
  let ?pre = "FileHeader_bytes ?h @ write_entries clock 1 (take k files)
              @ EntryHeader_bytes (entry_header_of (clock (Suc k)) (files ! k)) @ sf_path (files ! k)"
  let ?post = "write_entries clock (Suc (Suc k)) (drop (Suc k) files)"
  have "packed clock files = ?pre @ sf_content (files ! k) @ ?post"
    using write_entries_split [OF k, of clock 1] by (simp add: packed_def write_entry_def)
  moreover have "length ?pre = content_offset files k"
    by (simp add: content_offset_def entry_offset_def length_FileHeader_bytes
                  length_EntryHeader_bytes length_write_entries)
  ultimately show ?thesis
    using j by (metis nth_append_length_plus nth_append)
qed

lemma write_entries_metadata:
  "write_entries clock k (map (\<lambda>f. f\<lparr>sf_mode := m f, sf_mtime := t f\<rparr>) files)
   = write_entries clock k files"
  by (induction files arbitrary: k) (simp_all add: write_entry_def entry_header_of_def)

lemma example_tree_representable: "representable example_tree"
  by (simp add: representable_def example_tree_def ascii_def)

lemma example_tree_distinct: "distinct (map sf_path example_tree)"
  by (simp add: example_tree_def ascii_def)

lemma example_tree_relative: "\<forall>f \<in> set example_tree. \<not> is_absolute (sf_path f)"
  by (simp add: example_tree_def ascii_def is_absolute_def)

lemma legacy_checksum_zero: "field 20 4 (legacy_write_entry now f @ rest) = Some (0 :: u32)"
  by (simp add: legacy_write_entry_def legacy_entry_header_of_def field_EntryHeader)

text \<open>The loop of \<open>list\<close> on the records that the loop of \<open>pack\<close> wrote.\<close>

lemma sint_content_size:
  assumes "n < 2 ^ 63"
  shows "sint (of_nat n :: u64) = int n"
proof -
  have "uint (of_nat n :: u64) = int n"
    using assms by (simp add: uint_nat unat_of_nat)
  moreover have "signed_take_bit 63 (int n) = int n"
    using assms by (simp add: signed_take_bit_int_eq_self)
  ultimately show ?thesis by (simp add: sint_uint)
qed

lemma stream_seekg_forward:
  "stream_seekg_cur (int n) \<lparr>s_data = d, s_pos = p, s_fail = False\<rparr>
   = \<lparr>s_data = d, s_pos = p + n, s_fail = False\<rparr>"
  by (simp add: stream_seekg_cur_def nat_add_distrib)

lemma list_entries_written:
  assumes "drop p d = write_entries clock k files @ rest"
    and "list_all (\<lambda>f. length (sf_path f) < 2 ^ 32 \<and> length (sf_content f) < 2 ^ 63) files"
  shows "list_entries (length files) \<lparr>s_data = d, s_pos = p, s_fail = False\<rparr> shown
         = (Done, shown @ map (\<lambda>f. (sf_path f, of_nat (length (sf_content f)))) files)"
  using assms
proof (induction files arbitrary: p k shown)
  case Nil
  then show ?case by simp
next
  case (Cons f files)
  let ?e = "entry_header_of (clock k) f"
  have rec: "drop p d = EntryHeader_bytes ?e
                        @ (sf_path f @ sf_content f @ write_entries clock (Suc k) files @ rest)"
    using Cons.prems(1) by (simp add: write_entry_def)
  have r1: "stream_read 26 \<lparr>s_data = d, s_pos = p, s_fail = False\<rparr>
            = (EntryHeader_bytes ?e, \<lparr>s_data = d, s_pos = p + 26, s_fail = False\<rparr>)"
    using stream_read_exact [OF rec] by (simp add: length_EntryHeader_bytes)
  have d1: "drop (p + 26) d
            = sf_path f @ (sf_content f @ write_entries clock (Suc k) files @ rest)"
    using drop_after_read [OF rec] by (simp add: length_EntryHeader_bytes)
  have r2: "stream_read (length (sf_path f)) \<lparr>s_data = d, s_pos = p + 26, s_fail = False\<rparr>
            = (sf_path f, \<lparr>s_data = d, s_pos = p + 26 + length (sf_path f), s_fail = False\<rparr>)"
    using stream_read_exact [OF d1] by simp
  have d2: "drop (p + 26 + length (sf_path f)) d
            = sf_content f @ (write_entries clock (Suc k) files @ rest)"
    using drop_after_read [OF d1] by simp
  have nxt: "drop (p + 26 + length (sf_path f) + length (sf_content f)) d
             = write_entries clock (Suc k) files @ rest"
    using drop_after_read [OF d2] by simp
  have pl: "unat (path_length ?e) = length (sf_path f)"
    using Cons.prems(2) by (simp add: unat_path_length)
  have small: "length (sf_content f) < 2 ^ 63"
    using Cons.prems(2) by simp
  have cs: "content_size ?e = of_nat (length (sf_content f))"
    by (simp add: entry_header_of_def)
  have sk: "stream_seekg_cur (sint (content_size ?e))
              \<lparr>s_data = d, s_pos = p + 26 + length (sf_path f), s_fail = False\<rparr>
            = \<lparr>s_data = d, s_pos = p + 26 + length (sf_path f) + length (sf_content f),
               s_fail = False\<rparr>"
    by (simp only: cs sint_content_size [OF small] stream_seekg_forward)
  have rest_ok: "list_all (\<lambda>f. length (sf_path f) < 2 ^ 32 \<and> length (sf_content f) < 2 ^ 63) files"
    using Cons.prems(2) by simp
  have "list_entries (length (f # files)) \<lparr>s_data = d, s_pos = p, s_fail = False\<rparr> shown
        = list_entries (length files)
            \<lparr>s_data = d, s_pos = p + 26 + length (sf_path f) + length (sf_content f),
             s_fail = False\<rparr>
            (shown @ [(sf_path f, content_size ?e)])"
    by (simp only: list.size list_entries.simps r1 r2 pl sk Let_def prod.case option.case
                   field_EntryHeader_exact zero_filled_full add_Suc_right add_0_right One_nat_def)
  also have "\<dots> = (Done, (shown @ [(sf_path f, content_size ?e)])
                           @ map (\<lambda>f. (sf_path f, of_nat (length (sf_content f)))) files)"
    by (rule Cons.IH [OF nxt rest_ok])
  finally show ?case by (simp add: cs)
qed

lemma list_packed:
  assumes "representable files"
  shows "list_archive (Some (packed clock files))
         = (Done, map (\<lambda>f. (sf_path f, of_nat (length (sf_content f)))) files)"
proof -
  let ?h = "\<lparr>magic = KAR_MAGIC, version = 1, entry_count = of_nat (length files),
             created_at = clock 0, reserved = 0\<rparr>"
  have n: "unat (entry_count ?h) = length files"
    using assms by (simp add: representable_def unat_of_nat)
  have ok: "list_all (\<lambda>f. length (sf_path f) < 2 ^ 32 \<and> length (sf_content f) < 2 ^ 63) files"
    using assms by (simp add: representable_def)
  have dr: "drop 22 (packed clock files) = write_entries clock 1 files @ []"
    by (simp add: packed_def length_FileHeader_bytes)
  have "list_archive (Some (packed clock files))
        = list_entries (length files)
            \<lparr>s_data = packed clock files, s_pos = 22, s_fail = False\<rparr> []"
    using list_header [of ?h "write_entries clock 1 files"] n by (simp add: packed_def)
  also have "\<dots> = (Done, [] @ map (\<lambda>f. (sf_path f, of_nat (length (sf_content f)))) files)"
    by (rule list_entries_written [OF dr ok])
  finally show ?thesis by simp
qed

lemma le_bytes_4: "le_bytes 4 w = [ucast w, ucast (drop_bit 8 w), ucast (drop_bit 16 w), ucast (drop_bit 24 w)]"
proof -
  have "(4::nat) = Suc (Suc (Suc (Suc 0)))" by simp
  then show ?thesis by (simp only: le_bytes.simps) (simp add: drop_bit_drop_bit)
qed

text \<open>The magic in the file: the bytes \<open>4B 41 41 52\<close>, "KAAR".\<close>

lemma KAR_MAGIC_bytes: "le_bytes 4 KAR_MAGIC = [0x4B, 0x41, 0x41, 0x52]"
  by (simp add: le_bytes_4 KAR_MAGIC_def)

text \<open>The first comparison of \<open>unpack\<close>.\<close>

lemma unpack_wrong_magic:
  assumes "4 \<le> length bytes" and "le_word (take 4 bytes) \<noteq> KAR_MAGIC"
  shows "unpack fsys (Some bytes) target_dir = (Throw WrongMagic, [])"
  using assms
  by (simp add: unpack_def open_stream_def stream_read_def field_def Let_def min_def)

section \<open>The claims\<close>

text \<open>
  C1. Round trip. Take a tree of regular files that the format can represent (fewer
  than \<open>2^32\<close> files, paths shorter than \<open>2^32\<close> bytes, contents shorter than
  \<open>2^63\<close> bytes) and a destination on which no \<^verbatim>\<open>create_directories\<close> and no
  \<^verbatim>\<open>permissions\<close> call of the run throws. Then \<open>unpack\<close> on the archive that
  \<open>pack\<close> produced returns normally, and the calls it has made on the destination
  are, for every file of the tree in order: create the parent directories of
  \<^verbatim>\<open>target_dir / rel_path\<close>, write exactly the content of the file through an
  \<^verbatim>\<open>ofstream\<close> on \<^verbatim>\<open>target_dir / rel_path\<close>, set the permissions 0644. So every
  file of the tree is written under its relative path with its content, and nothing else
  is written. The code does not test the \<^verbatim>\<open>ofstream\<close>; on a destination where
  every one of these writes opens its file and takes the bytes, what has reached the
  file system is, for every file of the tree, its content at
  \<^verbatim>\<open>target_dir / rel_path\<close>. Zero-byte files and paths with directory components
  are not excluded.
\<close>

theorem unpack_pack_roundtrip:
  assumes "pack (Some files) can_create clock = Inr bytes"
    and "representable files"
    and "accepted fsys [] (extraction_calls target_dir files)"
  shows "unpack fsys (Some bytes) target_dir = (Done, extraction_calls target_dir files)
         \<and> (\<forall>f \<in> set files.
              OfstreamWrite (path_join target_dir (sf_path f)) (sf_content f)
              \<in> set (snd (unpack fsys (Some bytes) target_dir)))
         \<and> (\<forall>p c. OfstreamWrite p c \<in> set (snd (unpack fsys (Some bytes) target_dir)) \<longrightarrow>
              (\<exists>f \<in> set files. p = path_join target_dir (sf_path f) \<and> c = sf_content f))
         \<and> (writes_land fsys [] (extraction_calls target_dir files) \<longrightarrow>
              landed fsys [] (snd (unpack fsys (Some bytes) target_dir))
              = map (\<lambda>f. (path_join target_dir (sf_path f), sf_content f)) files)"
proof -
  have b: "bytes = packed clock files"
    using assms(1) by (simp add: pack_success)
  have u: "unpack fsys (Some bytes) target_dir = (Done, extraction_calls target_dir files)"
    unfolding b by (rule unpack_packed [OF assms(2) assms(3)])
  show ?thesis
    by (auto simp add: u extraction_calls_writes landed_extraction_calls)
qed

theorem unpack_pack_roundtrip_witness:
  "pack (Some example_tree) True example_clock = Inr (packed example_clock example_tree)
   \<and> representable example_tree
   \<and> accepted willing [] (extraction_calls (ascii ''out'') example_tree)
   \<and> unpack willing (Some (packed example_clock example_tree)) (ascii ''out'')
     = (Done,
        [CreateParentDirectories (ascii ''out/a.txt''),
         OfstreamWrite (ascii ''out/a.txt'') (ascii ''hello''),
         Permissions (ascii ''out/a.txt'') 420,
         CreateParentDirectories (ascii ''out/subdir/b.txt''),
         OfstreamWrite (ascii ''out/subdir/b.txt'') (ascii ''world''),
         Permissions (ascii ''out/subdir/b.txt'') 420,
         CreateParentDirectories (ascii ''out/empty.txt''),
         OfstreamWrite (ascii ''out/empty.txt'') [],
         Permissions (ascii ''out/empty.txt'') 420])
   \<and> writes_land willing [] (extraction_calls (ascii ''out'') example_tree)
   \<and> landed willing []
       (snd (unpack willing (Some (packed example_clock example_tree)) (ascii ''out'')))
     = [(ascii ''out/a.txt'', ascii ''hello''),
        (ascii ''out/subdir/b.txt'', ascii ''world''),
        (ascii ''out/empty.txt'', [])]"
proof -
  have p: "pack (Some example_tree) True example_clock = Inr (packed example_clock example_tree)"
    by (simp add: pack_success)
  have a: "accepted willing [] (extraction_calls (ascii ''out'') example_tree)"
    by (rule accepted_willing)
  have c: "extraction_calls (ascii ''out'') example_tree
           = [CreateParentDirectories (ascii ''out/a.txt''),
              OfstreamWrite (ascii ''out/a.txt'') (ascii ''hello''),
              Permissions (ascii ''out/a.txt'') 420,
              CreateParentDirectories (ascii ''out/subdir/b.txt''),
              OfstreamWrite (ascii ''out/subdir/b.txt'') (ascii ''world''),
              Permissions (ascii ''out/subdir/b.txt'') 420,
              CreateParentDirectories (ascii ''out/empty.txt''),
              OfstreamWrite (ascii ''out/empty.txt'') [],
              Permissions (ascii ''out/empty.txt'') 420]"
    by (simp add: example_tree_def entry_calls_def path_join_def is_absolute_def ascii_def)
  note r = unpack_pack_roundtrip [OF p example_tree_representable a]
  have u: "unpack willing (Some (packed example_clock example_tree)) (ascii ''out'')
           = (Done, extraction_calls (ascii ''out'') example_tree)"
    using r by blast
  have w: "writes_land willing [] (extraction_calls (ascii ''out'') example_tree)"
    by (rule writes_land_willing)
  have "landed willing []
          (snd (unpack willing (Some (packed example_clock example_tree)) (ascii ''out'')))
        = map (\<lambda>f. (path_join (ascii ''out'') (sf_path f), sf_content f)) example_tree"
    using r w by blast
  also have "\<dots> = [(ascii ''out/a.txt'', ascii ''hello''),
                   (ascii ''out/subdir/b.txt'', ascii ''world''),
                   (ascii ''out/empty.txt'', [])]"
    by (simp add: example_tree_def path_join_def is_absolute_def ascii_def)
  finally have l: "landed willing []
          (snd (unpack willing (Some (packed example_clock example_tree)) (ascii ''out'')))
        = [(ascii ''out/a.txt'', ascii ''hello''),
           (ascii ''out/subdir/b.txt'', ascii ''world''),
           (ascii ''out/empty.txt'', [])]" .
  have u': "unpack willing (Some (packed example_clock example_tree)) (ascii ''out'')
     = (Done,
        [CreateParentDirectories (ascii ''out/a.txt''),
         OfstreamWrite (ascii ''out/a.txt'') (ascii ''hello''),
         Permissions (ascii ''out/a.txt'') 420,
         CreateParentDirectories (ascii ''out/subdir/b.txt''),
         OfstreamWrite (ascii ''out/subdir/b.txt'') (ascii ''world''),
         Permissions (ascii ''out/subdir/b.txt'') 420,
         CreateParentDirectories (ascii ''out/empty.txt''),
         OfstreamWrite (ascii ''out/empty.txt'') [],
         Permissions (ascii ''out/empty.txt'') 420])"
    by (simp only: u c)
  show ?thesis
    by (intro conjI p example_tree_representable a u' w l)
qed

text \<open>
  C2. The checksum engine is the standard reflected CRC-32 of IEEE 802.3: the table has
  256 entries, the entry of a byte is eight shift/XOR rounds with the polynomial
  \<open>0xEDB88320\<close> on that byte, \<open>calculate\<close> (seed \<open>0xFFFFFFFF\<close>, one table step
  per byte, final inversion) equals the bit-serial CRC-32 on every buffer, and the
  reference vectors have the values \<open>0x00000000\<close> for the empty input,
  \<open>0xE8B7BE43\<close> for "a", \<open>0x352441C2\<close> for "abc" and \<open>0xCBF43926\<close> for
  "123456789".
\<close>

theorem crc32_standard:
  "length init_table = 256
   \<and> init_table ! unat (b :: byte) = crc_rounds 8 (ucast b)
   \<and> calculate buf = crc32_bitwise buf
   \<and> calculate [] = 0x00000000
   \<and> calculate (ascii ''a'') = 0xE8B7BE43
   \<and> calculate (ascii ''abc'') = 0x352441C2
   \<and> calculate (ascii ''123456789'') = 0xCBF43926"
  using calculate_a calculate_abc calculate_digits
  by (simp add: init_table_length init_table_nth calculate_bitwise [symmetric] calculate_empty
                ascii_def)

text \<open>
  C3. Corruption detection. In an archive that \<open>pack\<close> produced from a representable
  tree, replace byte \<open>j\<close> of the content of entry \<open>k\<close> by a different value, and
  let the destination be one on which the calls for the entries before \<open>k\<close> do not
  throw. The byte at that offset is the content byte, and \<open>unpack\<close> on the modified
  archive throws the CRC32 mismatch error that carries the path of entry \<open>k\<close>, the
  stored checksum (the CRC-32 of the original content) and the computed one (the CRC-32
  of the modified content, which differs). The calls made on the destination are
  exactly those for the entries before \<open>k\<close>: no call is made for entry \<open>k\<close> or
  for a later one.
\<close>

theorem unpack_detects_corruption:
  assumes "pack (Some files) can_create clock = Inr bytes"
    and "representable files"
    and "k < length files"
    and "j < length (sf_content (files ! k))"
    and "b \<noteq> sf_content (files ! k) ! j"
    and "accepted fsys [] (extraction_calls target_dir (take k files))"
  shows "bytes ! (content_offset files k + j) = sf_content (files ! k) ! j
         \<and> unpack fsys (Some (bytes[content_offset files k + j := b])) target_dir
           = (Throw (CRC32Mismatch (sf_path (files ! k))
                       (calculate (sf_content (files ! k)))
                       (calculate ((sf_content (files ! k))[j := b]))),
              extraction_calls target_dir (take k files))
         \<and> calculate ((sf_content (files ! k))[j := b]) \<noteq> calculate (sf_content (files ! k))"
proof -
  have b: "bytes = packed clock files"
    using assms(1) by (simp add: pack_success)
  show ?thesis
    unfolding b
    using packed_content_at [OF assms(3) assms(4)]
          unpack_corrupted [OF assms(2) assms(3) assms(4) assms(5) assms(6)]
          calculate_update [OF assms(4) assms(5)]
    by simp
qed

theorem unpack_detects_corruption_witness:
  "pack (Some example_tree) True example_clock = Inr (packed example_clock example_tree)
   \<and> representable example_tree
   \<and> (1 :: nat) < length example_tree
   \<and> (4 :: nat) < length (sf_content (example_tree ! 1))
   \<and> (0x78 :: byte) \<noteq> sf_content (example_tree ! 1) ! 4
   \<and> accepted willing [] (extraction_calls (ascii ''out'') (take 1 example_tree))
   \<and> unpack willing
        (Some ((packed example_clock example_tree)[content_offset example_tree 1 + 4 := 0x78]))
        (ascii ''out'')
      = (Throw (CRC32Mismatch (ascii ''subdir/b.txt'')
                  (calculate (ascii ''world''))
                  (calculate (ascii ''worlx''))),
         [CreateParentDirectories (ascii ''out/a.txt''),
          OfstreamWrite (ascii ''out/a.txt'') (ascii ''hello''),
          Permissions (ascii ''out/a.txt'') 420])"
proof -
  have p: "pack (Some example_tree) True example_clock = Inr (packed example_clock example_tree)"
    by (simp add: pack_success)
  have k: "(1 :: nat) < length example_tree"
    by (simp add: example_tree_def)
  have j: "(4 :: nat) < length (sf_content (example_tree ! 1))"
    by (simp add: example_tree_def ascii_def)
  have b: "(0x78 :: byte) \<noteq> sf_content (example_tree ! 1) ! 4"
    by (simp add: example_tree_def ascii_def)
  have a: "accepted willing [] (extraction_calls (ascii ''out'') (take 1 example_tree))"
    by (rule accepted_willing)
  have f: "sf_path (example_tree ! 1) = ascii ''subdir/b.txt''"
          "sf_content (example_tree ! 1) = ascii ''world''"
          "(ascii ''world'')[4 := 0x78] = ascii ''worlx''"
    by (simp_all add: example_tree_def ascii_def)
  have c: "extraction_calls (ascii ''out'') (take 1 example_tree)
           = [CreateParentDirectories (ascii ''out/a.txt''),
              OfstreamWrite (ascii ''out/a.txt'') (ascii ''hello''),
              Permissions (ascii ''out/a.txt'') 420]"
    by (simp add: example_tree_def entry_calls_def path_join_def is_absolute_def ascii_def)
  have u: "unpack willing
             (Some ((packed example_clock example_tree)[content_offset example_tree 1 + 4 := 0x78]))
             (ascii ''out'')
           = (Throw (CRC32Mismatch (sf_path (example_tree ! 1))
                       (calculate (sf_content (example_tree ! 1)))
                       (calculate ((sf_content (example_tree ! 1))[4 := 0x78]))),
              extraction_calls (ascii ''out'') (take 1 example_tree))"
    using unpack_detects_corruption [OF p example_tree_representable k j b a] by blast
  show ?thesis
    by (intro conjI p example_tree_representable k j b a) (simp only: u f c)
qed

text \<open>
  C4 (as amended). For every entry that \<open>pack\<close> writes, the checksum field stored in
  the archive is the CRC-32 of the content of that file as the checksum engine computes
  it; for an empty content that value is zero. The converse of the last part does not
  hold.
\<close>

theorem stored_checksum_is_crc32:
  assumes "pack (Some files) can_create clock = Inr bytes"
    and "k < length files"
  shows "field 20 4 (drop (entry_offset files k) bytes) = Some (calculate (sf_content (files ! k)))
         \<and> (sf_content (files ! k) = [] \<longrightarrow>
              field 20 4 (drop (entry_offset files k) bytes) = Some (0 :: u32))"
proof -
  have b: "bytes = packed clock files"
    using assms(1) by (simp add: pack_success)
  have "field 20 4 (drop (entry_offset files k) bytes) = Some (calculate (sf_content (files ! k)))"
    unfolding b using packed_entry_fields(4) [OF assms(2), of clock]
    by (simp add: entry_header_of_def)
  then show ?thesis
    by (auto simp add: calculate_empty)
qed

theorem stored_checksum_is_crc32_witness:
  "pack (Some example_tree) True example_clock = Inr (packed example_clock example_tree)
   \<and> (2 :: nat) < length example_tree
   \<and> sf_content (example_tree ! 2) = []
   \<and> field 20 4 (drop (entry_offset example_tree 2) (packed example_clock example_tree))
      = Some (calculate (sf_content (example_tree ! 2)))
   \<and> field 20 4 (drop (entry_offset example_tree 2) (packed example_clock example_tree))
      = Some (0 :: u32)"
proof -
  have p: "pack (Some example_tree) True example_clock = Inr (packed example_clock example_tree)"
    by (simp add: pack_success)
  have k: "(2 :: nat) < length example_tree"
    by (simp add: example_tree_def)
  have e: "sf_content (example_tree ! 2) = []"
    by (simp add: example_tree_def)
  show ?thesis
    using stored_checksum_is_crc32 [OF p k] p k e by (simp add: calculate_empty)
qed

text \<open>
  C4 as stated fails: a file of the four bytes \<open>9D 0A D9 6D\<close> is stored with the
  checksum field zero and the content size four.
\<close>

theorem stored_checksum_zero_nonempty:
  "pack (Some [\<lparr>sf_path = ascii ''z'', sf_content = [0x9D, 0x0A, 0xD9, 0x6D],
               sf_mode = 420, sf_mtime = 0\<rparr>]) True example_clock
   = Inr (packed example_clock
            [\<lparr>sf_path = ascii ''z'', sf_content = [0x9D, 0x0A, 0xD9, 0x6D],
              sf_mode = 420, sf_mtime = 0\<rparr>])
   \<and> field 20 4 (drop 22 (packed example_clock
            [\<lparr>sf_path = ascii ''z'', sf_content = [0x9D, 0x0A, 0xD9, 0x6D],
              sf_mode = 420, sf_mtime = 0\<rparr>])) = Some (0 :: u32)
   \<and> field 4 8 (drop 22 (packed example_clock
            [\<lparr>sf_path = ascii ''z'', sf_content = [0x9D, 0x0A, 0xD9, 0x6D],
              sf_mode = 420, sf_mtime = 0\<rparr>])) = Some (4 :: u64)"
proof -
  let ?files = "[\<lparr>sf_path = ascii ''z'', sf_content = [0x9D, 0x0A, 0xD9, 0x6D],
                  sf_mode = 420, sf_mtime = 0\<rparr>]"
  have k: "0 < length ?files" by simp
  have o: "entry_offset ?files 0 = 22" by (simp add: entry_offset_def)
  show ?thesis
    using packed_entry_fields(2) [OF k, of example_clock]
          packed_entry_fields(4) [OF k, of example_clock]
    by (simp add: o pack_success entry_header_of_def calculate_zero_nonempty)
qed

text \<open>
  C5 fails for \<open>list\<close>. On a stream with a wrong magic \<open>unpack\<close> throws the wrong
  magic error before it looks at anything else, but \<open>list\<close> never compares the
  magic: on the 22 bytes below, which start with \<open>50 4B 03 04\<close> and hold the entry
  count zero, it returns normally.
\<close>

theorem list_accepts_wrong_magic:
  "list_archive (Some [0x50, 0x4B, 0x03, 0x04, 1, 0, 0, 0, 0, 0,
                       0, 0, 0, 0, 0, 0, 0, 0, 0, 0, 0, 0]) = (Done, [])
   \<and> unpack fsys (Some [0x50, 0x4B, 0x03, 0x04, 1, 0, 0, 0, 0, 0,
                        0, 0, 0, 0, 0, 0, 0, 0, 0, 0, 0, 0]) target_dir
     = (Throw WrongMagic, [])"
proof -
  let ?bytes = "[0x50, 0x4B, 0x03, 0x04, 1, 0, 0, 0, 0, 0,
                 0, 0, 0, 0, 0, 0, 0, 0, 0, 0, 0, 0] :: byte list"
  have r: "stream_read 22 (open_stream (Some ?bytes))
           = (?bytes, \<lparr>s_data = ?bytes, s_pos = 22, s_fail = False\<rparr>)"
    by (simp add: stream_read_def open_stream_def Let_def)
  have n: "field 6 4 ?bytes = Some (0 :: u32)"
    by (simp add: field_def)
  have m: "field 0 4 ?bytes = Some (0x04034B50 :: u32)"
    by (simp add: field_def)
  have l: "list_archive (Some ?bytes) = (Done, [])"
    by (simp add: list_archive_def r n)
  have o: "\<not> s_fail (open_stream (Some ?bytes))"
    by (simp add: open_stream_def)
  have u: "unpack fsys (Some ?bytes) target_dir = (Throw WrongMagic, [])"
    by (simp add: unpack_def o r m KAR_MAGIC_def)
  show ?thesis by (intro conjI l u)
qed

text \<open>
  C6 (as amended). \<open>unpack\<close> has no path traversal error and does not examine the
  path of an entry. For a container whose records are well formed, whatever their paths
  are, it makes its calls on \<^verbatim>\<open>target_dir / rel_path\<close> with the path as stored, for
  every record in order, and returns normally when none of these calls throws.
\<close>

theorem unpack_passes_any_path:
  assumes "magic h = KAR_MAGIC"
    and "unat (entry_count h) = length es"
    and "list_all well_formed es"
    and "accepted fsys [] (stored_calls target_dir es)"
  shows "unpack fsys (Some (FileHeader_bytes h @ entries_bytes es)) target_dir
         = (Done, stored_calls target_dir es)
         \<and> list_all (\<lambda>(e, pth, cnt). OfstreamWrite (path_join target_dir pth) cnt
                        \<in> set (snd (unpack fsys (Some (FileHeader_bytes h @ entries_bytes es))
                                      target_dir))) es"
proof -
  have u: "unpack fsys (Some (FileHeader_bytes h @ entries_bytes es)) target_dir
           = (Done, stored_calls target_dir es)"
    by (rule unpack_stored [OF assms])
  show ?thesis
    by (simp add: u stored_calls_writes)
qed

theorem unpack_passes_any_path_witness:
  "magic \<lparr>magic = KAR_MAGIC, version = 1, entry_count = 2, created_at = 0, reserved = 0\<rparr>
     = KAR_MAGIC
   \<and> unat (entry_count \<lparr>magic = KAR_MAGIC, version = 1, entry_count = 2, created_at = 0,
                         reserved = 0\<rparr>)
     = length [(\<lparr>path_length = 9, content_size = 1, modified_time = 0,
                 checksum = 0xE8B7BE43, permissions = 420\<rparr>, ascii ''/tmp/evil'', ascii ''a''),
               (\<lparr>path_length = 8, content_size = 0, modified_time = 0,
                 checksum = 0, permissions = 493\<rparr>, ascii ''../../up'', [])]
   \<and> list_all well_formed
        [(\<lparr>path_length = 9, content_size = 1, modified_time = 0,
           checksum = 0xE8B7BE43, permissions = 420\<rparr>, ascii ''/tmp/evil'', ascii ''a''),
         (\<lparr>path_length = 8, content_size = 0, modified_time = 0,
           checksum = 0, permissions = 493\<rparr>, ascii ''../../up'', [])]
   \<and> accepted willing []
        (stored_calls (ascii ''out'')
           [(\<lparr>path_length = 9, content_size = 1, modified_time = 0,
              checksum = 0xE8B7BE43, permissions = 420\<rparr>, ascii ''/tmp/evil'', ascii ''a''),
            (\<lparr>path_length = 8, content_size = 0, modified_time = 0,
              checksum = 0, permissions = 493\<rparr>, ascii ''../../up'', [])])
   \<and> unpack willing
        (Some (FileHeader_bytes
                 \<lparr>magic = KAR_MAGIC, version = 1, entry_count = 2, created_at = 0, reserved = 0\<rparr>
               @ entries_bytes
                   [(\<lparr>path_length = 9, content_size = 1, modified_time = 0,
                      checksum = 0xE8B7BE43, permissions = 420\<rparr>, ascii ''/tmp/evil'', ascii ''a''),
                    (\<lparr>path_length = 8, content_size = 0, modified_time = 0,
                      checksum = 0, permissions = 493\<rparr>, ascii ''../../up'', [])]))
        (ascii ''out'')
      = (Done,
         [CreateParentDirectories (ascii ''/tmp/evil''),
          OfstreamWrite (ascii ''/tmp/evil'') (ascii ''a''),
          Permissions (ascii ''/tmp/evil'') 420,
          CreateParentDirectories (ascii ''out/../../up''),
          OfstreamWrite (ascii ''out/../../up'') [],
          Permissions (ascii ''out/../../up'') 493])"
proof -
  let ?h = "\<lparr>magic = KAR_MAGIC, version = 1, entry_count = 2, created_at = 0, reserved = 0\<rparr>"
  let ?es = "[(\<lparr>path_length = 9, content_size = 1, modified_time = 0,
                checksum = 0xE8B7BE43, permissions = 420\<rparr>, ascii ''/tmp/evil'', ascii ''a''),
              (\<lparr>path_length = 8, content_size = 0, modified_time = 0,
                checksum = 0, permissions = 493\<rparr>, ascii ''../../up'', [])]"
  have m: "magic ?h = KAR_MAGIC" by simp
  have n: "unat (entry_count ?h) = length ?es" by simp
  have w: "list_all well_formed ?es"
    using calculate_a by (simp add: ascii_def calculate_empty)
  have a: "accepted willing [] (stored_calls (ascii ''out'') ?es)"
    by (rule accepted_willing)
  have c: "stored_calls (ascii ''out'') ?es
           = [CreateParentDirectories (ascii ''/tmp/evil''),
              OfstreamWrite (ascii ''/tmp/evil'') (ascii ''a''),
              Permissions (ascii ''/tmp/evil'') 420,
              CreateParentDirectories (ascii ''out/../../up''),
              OfstreamWrite (ascii ''out/../../up'') [],
              Permissions (ascii ''out/../../up'') 493]"
    by (simp add: entry_calls_def path_join_def is_absolute_def ascii_def)
  have u: "unpack willing (Some (FileHeader_bytes ?h @ entries_bytes ?es)) (ascii ''out'')
           = (Done, stored_calls (ascii ''out'') ?es)"
    using unpack_passes_any_path [OF m n w a] by blast
  show ?thesis
    by (intro conjI m n w a) (simp only: u c)
qed

text \<open>
  C6 as stated fails: the entry path \<^verbatim>\<open>../evil\<close> leaves the destination directory
  \<^verbatim>\<open>out\<close>, and on a file system on which no call throws \<open>unpack\<close> returns
  normally after it has written the content through an \<^verbatim>\<open>ofstream\<close> on
  \<^verbatim>\<open>out/../evil\<close>.
\<close>

theorem unpack_follows_parent_segments:
  "unpack willing
     (Some (FileHeader_bytes
              \<lparr>magic = KAR_MAGIC, version = 1, entry_count = 1, created_at = 0, reserved = 0\<rparr>
            @ EntryHeader_bytes
                \<lparr>path_length = 7, content_size = 1, modified_time = 0,
                 checksum = 0xE8B7BE43, permissions = 420\<rparr>
            @ ascii ''../evil'' @ ascii ''a''))
     (ascii ''out'')
   = (Done,
      [CreateParentDirectories (ascii ''out/../evil''),
       OfstreamWrite (ascii ''out/../evil'') (ascii ''a''),
       Permissions (ascii ''out/../evil'') 420])"
proof -
  let ?h = "\<lparr>magic = KAR_MAGIC, version = 1, entry_count = 1, created_at = 0, reserved = 0\<rparr>"
  let ?e = "\<lparr>path_length = 7, content_size = 1, modified_time = 0,
             checksum = 0xE8B7BE43, permissions = 420\<rparr>"
  let ?es = "[(?e, ascii ''../evil'', ascii ''a'')]"
  have m: "magic ?h = KAR_MAGIC" by simp
  have n: "unat (entry_count ?h) = length ?es" by simp
  have w: "list_all well_formed ?es"
    using calculate_a by (simp add: ascii_def)
  have a: "accepted willing [] (stored_calls (ascii ''out'') ?es)"
    by (rule accepted_willing)
  have c: "stored_calls (ascii ''out'') ?es
           = [CreateParentDirectories (ascii ''out/../evil''),
              OfstreamWrite (ascii ''out/../evil'') (ascii ''a''),
              Permissions (ascii ''out/../evil'') 420]"
    by (simp add: entry_calls_def path_join_def is_absolute_def ascii_def)
  have b: "FileHeader_bytes ?h @ EntryHeader_bytes ?e @ ascii ''../evil'' @ ascii ''a''
           = FileHeader_bytes ?h @ entries_bytes ?es"
    by simp
  show ?thesis
    using unpack_stored [OF m n w a] by (simp only: b c)
qed

text \<open>
  C7. After a successful \<open>pack\<close> of a representable tree, the \<open>entry_count\<close>
  field in the bytes of the container is the number of files, one record was written
  for each, and following the length fields that the container itself stores, record by
  record from the end of the global header, gives for every record the path length and
  the content size of its file. The length of the container is the size of the global
  header (22) plus, over these records, the size of the entry header (26) plus the
  stored \<open>path_length\<close> plus the stored \<open>content_size\<close>.
\<close>

theorem container_length_and_count:
  assumes "pack (Some files) can_create clock = Inr bytes"
    and "representable files"
  shows "\<exists>(n :: u32) sizes.
           field 6 4 bytes = Some n
           \<and> unat n = length files
           \<and> stored_lengths (unat n) (length (FileHeader_bytes h)) bytes = Some sizes
           \<and> sizes = map (\<lambda>f. (length (sf_path f), length (sf_content f))) files
           \<and> length bytes
             = length (FileHeader_bytes h)
               + sum_list (map (\<lambda>(pl, cs). length (EntryHeader_bytes e) + pl + cs) sizes)
           \<and> length (FileHeader_bytes h) = 22 \<and> length (EntryHeader_bytes e) = 26"
proof -
  have b: "bytes = packed clock files"
    using assms(1) by (simp add: pack_success)
  have ok: "list_all (\<lambda>f. length (sf_path f) < 2 ^ 32 \<and> length (sf_content f) < 2 ^ 63) files"
    using assms(2) by (simp add: representable_def)
  have cnt: "field 6 4 bytes = Some (of_nat (length files) :: u32)"
    unfolding b packed_def by (simp add: field_FileHeader)
  have n: "unat (of_nat (length files) :: u32) = length files"
    using assms(2) by (simp add: representable_def unat_of_nat)
  have dr: "drop 22 bytes = write_entries clock 1 files @ []"
    unfolding b by (simp add: packed_def length_FileHeader_bytes)
  have sl: "stored_lengths (length files) 22 bytes
            = Some (map (\<lambda>f. (length (sf_path f), length (sf_content f))) files)"
    by (rule stored_lengths_written [OF dr ok])
  have "sum_list (map (\<lambda>(pl, cs). 26 + pl + cs)
                    (map (\<lambda>f. (length (sf_path f), length (sf_content f))) files))
        = sum_list (map entry_size files)"
    by (induction files) (simp_all add: entry_size_def)
  then have len: "length bytes
                  = 22 + sum_list (map (\<lambda>(pl, cs). 26 + pl + cs)
                           (map (\<lambda>f. (length (sf_path f), length (sf_content f))) files))"
    by (simp add: b length_packed)
  show ?thesis
    using cnt n sl len
    by (simp add: length_FileHeader_bytes length_EntryHeader_bytes)
qed

theorem container_length_and_count_witness:
  "pack (Some example_tree) True example_clock = Inr (packed example_clock example_tree)
   \<and> representable example_tree
   \<and> field 6 4 (packed example_clock example_tree) = Some (3 :: u32)
   \<and> stored_lengths 3 22 (packed example_clock example_tree) = Some [(5, 5), (12, 5), (9, 0)]
   \<and> length (packed example_clock example_tree) = 22 + ((26 + 5 + 5) + (26 + 12 + 5) + (26 + 9 + 0))"
proof -
  let ?h = "\<lparr>magic = KAR_MAGIC, version = 1, entry_count = 0, created_at = 0, reserved = 0\<rparr>"
  let ?e = "\<lparr>path_length = 0, content_size = 0, modified_time = 0, checksum = 0, permissions = 0\<rparr>"
  have p: "pack (Some example_tree) True example_clock = Inr (packed example_clock example_tree)"
    by (simp add: pack_success)
  have l: "length example_tree = 3" by (simp add: example_tree_def)
  have s: "map (\<lambda>f. (length (sf_path f), length (sf_content f))) example_tree
           = [(5, 5), (12, 5), (9, 0)]"
    by (simp add: example_tree_def ascii_def)
  obtain n :: u32 and sizes where
    f: "field 6 4 (packed example_clock example_tree) = Some n"
    and u: "unat n = length example_tree"
    and sl: "stored_lengths (unat n) (length (FileHeader_bytes ?h))
               (packed example_clock example_tree) = Some sizes"
    and sz: "sizes = map (\<lambda>f. (length (sf_path f), length (sf_content f))) example_tree"
    and len: "length (packed example_clock example_tree)
              = length (FileHeader_bytes ?h)
                + sum_list (map (\<lambda>(pl, cs). length (EntryHeader_bytes ?e) + pl + cs) sizes)"
    using container_length_and_count [OF p example_tree_representable, of ?h ?e] by blast
  have n3: "n = 3"
  proof -
    have "unat n = unat (3 :: u32)" using u l by simp
    then show ?thesis by (simp only: word_unat_eq_iff)
  qed
  have f': "field 6 4 (packed example_clock example_tree) = Some (3 :: u32)"
    using f n3 by simp
  have sl': "stored_lengths 3 22 (packed example_clock example_tree) = Some [(5, 5), (12, 5), (9, 0)]"
    using sl u l sz s by (simp add: length_FileHeader_bytes)
  have len': "length (packed example_clock example_tree)
              = 22 + ((26 + 5 + 5) + (26 + 12 + 5) + (26 + 9 + 0))"
    using len sz s by (simp add: length_FileHeader_bytes length_EntryHeader_bytes)
  show ?thesis
    by (intro conjI p example_tree_representable f' sl' len')
qed

text \<open>
  C8. An archive whose global header has the right magic and the entry count zero:
  \<open>unpack\<close> returns normally without a call on the destination, and \<open>list\<close>
  returns normally and prints no entry, whatever bytes follow the header.
\<close>

theorem empty_archive_ok:
  assumes "magic h = KAR_MAGIC" and "entry_count h = 0"
  shows "unpack fsys (Some (FileHeader_bytes h @ rest)) target_dir = (Done, [])
         \<and> list_archive (Some (FileHeader_bytes h @ rest)) = (Done, [])"
  using assms by (simp add: unpack_header list_header)

theorem empty_archive_ok_witness:
  "magic \<lparr>magic = KAR_MAGIC, version = 1, entry_count = 0, created_at = 1750000000, reserved = 0\<rparr>
     = KAR_MAGIC
   \<and> entry_count \<lparr>magic = KAR_MAGIC, version = 1, entry_count = 0, created_at = 1750000000,
                   reserved = 0\<rparr> = 0
   \<and> unpack willing
        (Some (FileHeader_bytes
                 \<lparr>magic = KAR_MAGIC, version = 1, entry_count = 0, created_at = 1750000000,
                  reserved = 0\<rparr> @ []))
        (ascii ''out'') = (Done, [])
   \<and> list_archive (Some (FileHeader_bytes
                      \<lparr>magic = KAR_MAGIC, version = 1, entry_count = 0, created_at = 1750000000,
                       reserved = 0\<rparr> @ [])) = (Done, [])"
proof -
  let ?h = "\<lparr>magic = KAR_MAGIC, version = 1, entry_count = 0, created_at = 1750000000,
             reserved = 0\<rparr>"
  have m: "magic ?h = KAR_MAGIC" and n: "entry_count ?h = 0" by simp_all
  show ?thesis
    using empty_archive_ok [OF m n, of willing "[]" "ascii ''out''"] by simp
qed

text \<open>
  C9 fails for \<open>list\<close>. On an archive that cannot be opened \<open>unpack\<close> throws the
  cannot-open error at once, but \<open>list\<close> does not test the stream: it goes on to
  print the entry count of a header that no read has filled.
\<close>

theorem list_unopened_archive:
  "list_archive None = (Indeterminate, [])
   \<and> unpack fsys None target_dir = (Throw CannotOpenArchive, [])"
  by (simp add: list_archive_def unpack_def open_stream_def stream_read_def field_def)

text \<open>
  C10. For every entry that \<open>pack\<close> writes, the stored permission bits are the
  constant 0644 (420) and the stored modification time is the value of
  \<^verbatim>\<open>current_timestamp()\<close> read while that entry is written. Neither comes from the
  source file: the archive is the same whatever the permission bits and modification
  times of the source files are.
\<close>

theorem stored_metadata_fixed:
  assumes "pack (Some files) can_create clock = Inr bytes"
    and "k < length files"
  shows "field 24 2 (drop (entry_offset files k) bytes) = Some (420 :: u16)
         \<and> field 12 8 (drop (entry_offset files k) bytes) = Some (clock (Suc k))
         \<and> pack (Some (map (\<lambda>f. f\<lparr>sf_mode := m f, sf_mtime := t f\<rparr>) files)) can_create clock
           = Inr bytes"
proof -
  have b: "bytes = packed clock files" and c: can_create
    using assms(1) by (simp_all add: pack_success)
  have "packed clock (map (\<lambda>f. f\<lparr>sf_mode := m f, sf_mtime := t f\<rparr>) files) = packed clock files"
    by (simp add: packed_def write_entries_metadata)
  then show ?thesis
    unfolding b
    using packed_entry_fields(3) [OF assms(2), of clock]
          packed_entry_fields(5) [OF assms(2), of clock] c
    by (simp add: entry_header_of_def pack_success)
qed

theorem stored_metadata_fixed_witness:
  "pack (Some example_tree) True example_clock = Inr (packed example_clock example_tree)
   \<and> (1 :: nat) < length example_tree
   \<and> sf_mode (example_tree ! 1) = 384
   \<and> sf_mtime (example_tree ! 1) = 1700000100
   \<and> field 24 2 (drop (entry_offset example_tree 1) (packed example_clock example_tree))
      = Some (420 :: u16)
   \<and> field 12 8 (drop (entry_offset example_tree 1) (packed example_clock example_tree))
      = Some (1750000002 :: u64)"
proof -
  have p: "pack (Some example_tree) True example_clock = Inr (packed example_clock example_tree)"
    by (simp add: pack_success)
  have k: "(1 :: nat) < length example_tree"
    by (simp add: example_tree_def)
  have s: "sf_mode (example_tree ! 1) = 384" "sf_mtime (example_tree ! 1) = 1700000100"
    by (simp_all add: example_tree_def)
  show ?thesis
    using stored_metadata_fixed [OF p k] p k s by (simp add: example_clock_def)
qed

end
